theory Spec2Isabelle
  imports Complex_Main
begin

section \<open>JavaScript values as the routes see them\<close>

text \<open>
  The routes work on the result of \<open>JSON.parse\<close>. A parsed document is a \<open>json\<close> value;
  an object keeps its entries in the order \<open>Object.keys\<close> enumerates them, with distinct
  keys. A JavaScript value that may be \<open>undefined\<close> (an absent property) is a
  \<open>json option\<close>, with \<open>None\<close> for \<open>undefined\<close>. A number is carried by the value of
  the double it parses to; the routes only test numbers for truthiness and pass them on
  (as a property key a number never names one of the counters).
\<close>

datatype json =
    JNull
  | JBool bool
  | JNum rat
  | JStr string
  | JArr "json list"
  | JObj "(string \<times> json) list"

datatype js_error = TypeError

text \<open>ToBoolean: \<open>undefined\<close>, \<open>null\<close>, \<open>false\<close>, \<open>0\<close> and \<open>""\<close> are falsy, all else truthy.\<close>

fun truthy :: "json option \<Rightarrow> bool" where
  "truthy None = False"
| "truthy (Some JNull) = False"
| "truthy (Some (JBool b)) = b"
| "truthy (Some (JNum n)) = (n \<noteq> 0)"
| "truthy (Some (JStr s)) = (s \<noteq> [])"
| "truthy (Some (JArr xs)) = True"
| "truthy (Some (JObj kvs)) = True"

text \<open>\<open>Array.isArray(v)\<close>.\<close>

fun isArray :: "json option \<Rightarrow> bool" where
  "isArray (Some (JArr xs)) = True"
| "isArray v = False"

text \<open>
  \<open>v.k\<close> and \<open>v[k]\<close> for the property names the routes read (\<open>tasks\<close>, \<open>master\<close>,
  \<open>title\<close>, \<open>command\<close>, ...): reading a property of \<open>undefined\<close> or \<open>null\<close> throws a
  TypeError; an object gives its entry or \<open>undefined\<close>; a boolean, number, string or array
  has none of these names and gives \<open>undefined\<close>.
\<close>

fun getProp :: "json option \<Rightarrow> string \<Rightarrow> js_error + json option" where
  "getProp None k = Inl TypeError"
| "getProp (Some JNull) k = Inl TypeError"
| "getProp (Some (JObj kvs)) k = Inr (map_of kvs k)"
| "getProp (Some v) k = Inr None"

text \<open>\<open>a || d\<close> where the default \<open>d\<close> is a defined value.\<close>

definition orDefault :: "json option \<Rightarrow> json \<Rightarrow> json" where
  "orDefault a d = (case a of None \<Rightarrow> d | Some v \<Rightarrow> if truthy (Some v) then v else d)"

text \<open>Decimal rendering of an array index, as \<open>Object.keys\<close> produces it.\<close>

fun decimal :: "nat \<Rightarrow> string" where
  "decimal n =
     (if n < 10 then [''0123456789'' ! n]
      else decimal (n div 10) @ [''0123456789'' ! (n mod 10)])"

declare decimal.simps [simp del]

text \<open>
  \<open>Object.entries(v)\<close> for a value that is not \<open>null\<close> or \<open>undefined\<close>: the entries of an
  object, the indexed elements of an array, the indexed one-character strings of a string,
  and nothing for a boolean or a number.
\<close>

fun objectEntries :: "json \<Rightarrow> (string \<times> json) list" where
  "objectEntries (JObj kvs) = kvs"
| "objectEntries (JArr xs) = zip (map decimal [0..<length xs]) xs"
| "objectEntries (JStr s) = zip (map decimal [0..<length s]) (map (\<lambda>c. JStr [c]) s)"
| "objectEntries v = []"

section \<open>Task list normalisation: \<open>GET /tasks/:projectName\<close>\<close>

text \<open>
  The shape resolution of the handler. The result is the value bound to \<open>tasks\<close> and the
  value of \<open>currentTag\<close> when the \<open>if\<close> chain is left; a TypeError raised on the way is
  \<open>Inl\<close>. \<open>find\<close> returns the key it found or \<open>undefined\<close>, and \<open>if (firstTag)\<close>
  tests that result for truthiness: \<open>undefined\<close> is falsy, and so is a found key
  that is the empty string, which leaves \<open>tasks = []\<close> and \<open>currentTag = 'master'\<close> as
  they were initialised.
\<close>

text \<open>
  \<open>Object.keys(tasksData).find(key => tasksData[key].tasks && Array.isArray(tasksData[key].tasks))\<close>
  over the entries of \<open>tasksData\<close>.
\<close>

fun findFirstTag :: "(string \<times> json) list \<Rightarrow> js_error + string option" where
  "findFirstTag [] = Inr None"
| "findFirstTag ((key, v) # rest) =
     (case getProp (Some v) ''tasks'' of
        Inl e \<Rightarrow> Inl e
      | Inr t \<Rightarrow> if truthy t \<and> isArray t then Inr (Some key) else findFirstTag rest)"

text \<open>\<open>o[k] && o[k].tasks\<close>, as a condition.\<close>

definition hasTagTasks :: "json \<Rightarrow> string \<Rightarrow> js_error + bool" where
  "hasTagTasks tasksData k =
     (case getProp (Some tasksData) k of
        Inl e \<Rightarrow> Inl e
      | Inr m \<Rightarrow>
          if truthy m then
            (case getProp m ''tasks'' of Inl e \<Rightarrow> Inl e | Inr t \<Rightarrow> Inr (truthy t))
          else Inr False)"

text \<open>\<open>o[k].tasks\<close>, read after the condition above held.\<close>

definition tagTasks :: "json \<Rightarrow> string \<Rightarrow> js_error + json option" where
  "tagTasks tasksData k =
     (case getProp (Some tasksData) k of
        Inl e \<Rightarrow> Inl e
      | Inr m \<Rightarrow> getProp m ''tasks'')"

definition resolveTasks :: "json \<Rightarrow> js_error + (json option \<times> string)" where
  "resolveTasks tasksData =
     (if isArray (Some tasksData) then Inr (Some tasksData, ''master'')
      else
        case getProp (Some tasksData) ''tasks'' of
          Inl e \<Rightarrow> Inl e
        | Inr t \<Rightarrow>
            if truthy t then Inr (t, ''master'')
            else
              (case hasTagTasks tasksData ''master'' of
                 Inl e \<Rightarrow> Inl e
               | Inr True \<Rightarrow>
                   (case tagTasks tasksData ''master'' of
                      Inl e \<Rightarrow> Inl e
                    | Inr ts \<Rightarrow> Inr (ts, ''master''))
               | Inr False \<Rightarrow>
                   (case hasTagTasks tasksData ''master'' of
                      Inl e \<Rightarrow> Inl e
                    | Inr True \<Rightarrow>
                        (case tagTasks tasksData ''master'' of
                           Inl e \<Rightarrow> Inl e
                         | Inr ts \<Rightarrow> Inr (ts, ''master''))
                    | Inr False \<Rightarrow>
                        (case findFirstTag (objectEntries tasksData) of
                           Inl e \<Rightarrow> Inl e
                         | Inr None \<Rightarrow> Inr (Some (JArr []), ''master'')
                         | Inr (Some firstTag) \<Rightarrow>
                             if truthy (Some (JStr firstTag)) then
                               (case tagTasks tasksData firstTag of
                                  Inl e \<Rightarrow> Inl e
                                | Inr ts \<Rightarrow> Inr (ts, firstTag))
                             else Inr (Some (JArr []), ''master'')))))"

text \<open>One element of \<open>transformedTasks\<close>.\<close>

record task_out =
  id_field :: "json option"
  title :: json
  description :: json
  status :: json
  priority :: json
  dependencies :: json
  createdAt :: json
  updatedAt :: json
  details :: json
  testStrategy :: json
  subtasks :: json

text \<open>
  \<open>task.k\<close> for a task that is not \<open>null\<close>, where the read cannot throw.
\<close>

definition fieldOf :: "json \<Rightarrow> string \<Rightarrow> json option" where
  "fieldOf task k = (case getProp (Some task) k of Inl e \<Rightarrow> None | Inr v \<Rightarrow> v)"

text \<open>
  The callback of \<open>tasks.map\<close>. \<open>nowC\<close> and \<open>nowU\<close> are what
  \<open>new Date().toISOString()\<close> returns at the \<open>createdAt\<close> and the \<open>updatedAt\<close> line.
  A \<open>null\<close> element throws at \<open>task.id\<close>; no other element throws.
\<close>

definition transformTask :: "string \<Rightarrow> string \<Rightarrow> json \<Rightarrow> js_error + task_out" where
  "transformTask nowC nowU task =
     (case getProp (Some task) ''id'' of
        Inl e \<Rightarrow> Inl e
      | Inr i \<Rightarrow>
          Inr \<lparr> id_field = i,
                title = orDefault (fieldOf task ''title'') (JStr ''Untitled Task''),
                description = orDefault (fieldOf task ''description'') (JStr ''''),
                status = orDefault (fieldOf task ''status'') (JStr ''pending''),
                priority = orDefault (fieldOf task ''priority'') (JStr ''medium''),
                dependencies = orDefault (fieldOf task ''dependencies'') (JArr []),
                createdAt =
                  orDefault (fieldOf task ''createdAt'')
                    (orDefault (fieldOf task ''created'') (JStr nowC)),
                updatedAt =
                  orDefault (fieldOf task ''updatedAt'')
                    (orDefault (fieldOf task ''updated'') (JStr nowU)),
                details = orDefault (fieldOf task ''details'') (JStr ''''),
                testStrategy =
                  orDefault (fieldOf task ''testStrategy'')
                    (orDefault (fieldOf task ''test_strategy'') (JStr '''')),
                subtasks = orDefault (fieldOf task ''subtasks'') (JArr []) \<rparr>)"

text \<open>
  \<open>tasks.map(...)\<close> over the elements, in order; \<open>clock k\<close> is the reading of the clock at
  the \<open>k\<close>-th place of the run where \<open>new Date()\<close> can be evaluated (two per task, then
  one for the response).
\<close>

fun transformAll :: "(nat \<Rightarrow> string) \<Rightarrow> nat \<Rightarrow> json list \<Rightarrow> js_error + task_out list" where
  "transformAll clock i [] = Inr []"
| "transformAll clock i (task # rest) =
     (case transformTask (clock (2 * i)) (clock (2 * i + 1)) task of
        Inl e \<Rightarrow> Inl e
      | Inr t \<Rightarrow>
          (case transformAll clock (Suc i) rest of
             Inl e \<Rightarrow> Inl e
           | Inr ts \<Rightarrow> Inr (t # ts)))"

text \<open>\<open>tasks.map\<close> is a function only when \<open>tasks\<close> is an array.\<close>

fun mapTasks :: "(nat \<Rightarrow> string) \<Rightarrow> json option \<Rightarrow> js_error + task_out list" where
  "mapTasks clock (Some (JArr xs)) = transformAll clock 0 xs"
| "mapTasks clock v = Inl TypeError"

text \<open>\<open>transformedTasks.filter(t => t.status === s).length\<close>.\<close>

definition countStatus :: "task_out list \<Rightarrow> string \<Rightarrow> nat" where
  "countStatus ts s = length (filter (\<lambda>t. status t = JStr s) ts)"

record normalized =
  tasks :: "task_out list"
  currentTag :: string
  totalTasks :: nat
  tasksByStatus :: "(string \<times> nat) list"
  timestamp :: string

definition normalize_tasks :: "(nat \<Rightarrow> string) \<Rightarrow> json \<Rightarrow> js_error + normalized" where
  "normalize_tasks clock tasksData =
     (case resolveTasks tasksData of
        Inl e \<Rightarrow> Inl e
      | Inr (ts, tag) \<Rightarrow>
          (case mapTasks clock ts of
             Inl e \<Rightarrow> Inl e
           | Inr transformedTasks \<Rightarrow>
               Inr \<lparr> tasks = transformedTasks,
                     currentTag = tag,
                     totalTasks = length transformedTasks,
                     tasksByStatus =
                       [(''pending'', countStatus transformedTasks ''pending''),
                        (''in-progress'', countStatus transformedTasks ''in-progress''),
                        (''done'', countStatus transformedTasks ''done''),
                        (''review'', countStatus transformedTasks ''review''),
                        (''deferred'', countStatus transformedTasks ''deferred''),
                        (''cancelled'', countStatus transformedTasks ''cancelled'')],
                     timestamp = clock (2 * length transformedTasks) \<rparr>))"

text \<open>
  The handler around it. The tasks file is absent (\<open>access\<close> throws), or cannot be read or
  parsed (\<open>readFile\<close> or \<open>JSON.parse\<close> throws), or parses to a value. Every exception
  thrown after the file was found is caught and answered with status 500.
\<close>

datatype tasks_file = NoTasksFile | Unparseable | Parsed json

datatype tasks_response =
    NoTasksFound
  | TasksLoaded normalized
  | FailedToParse

definition tasksHandler :: "(nat \<Rightarrow> string) \<Rightarrow> tasks_file \<Rightarrow> tasks_response" where
  "tasksHandler clock f =
     (case f of
        NoTasksFile \<Rightarrow> NoTasksFound
      | Unparseable \<Rightarrow> FailedToParse
      | Parsed tasksData \<Rightarrow>
          (case normalize_tasks clock tasksData of
             Inl e \<Rightarrow> FailedToParse
           | Inr r \<Rightarrow> TasksLoaded r))"

section \<open>Task statistics of \<open>detectTaskMasterFolder\<close>\<close>

subsection \<open>The arithmetic of the completion percentage\<close>

text \<open>
  \<open>Math.round((stats.done / stats.total) * 100)\<close> is computed on IEEE 754 doubles: the
  quotient is rounded to the nearest double (ties to even), then the product, and
  \<open>Math.round\<close> rounds the result to the nearest integer, ties upwards. The counters are
  natural numbers far below \<open>2 ^ 53\<close>, so they are doubles themselves, and a positive
  quotient or product of them is in the normal range. A positive double is a significand
  of 53 bits and an exponent.
\<close>

fun bits :: "nat \<Rightarrow> nat" where
  "bits n = (if n = 0 then 0 else Suc (bits (n div 2)))"

declare bits.simps [simp del]

text \<open>\<open>ilog2 p q\<close> is the integer \<open>e\<close> with \<open>2 ^ e \<le> p / q < 2 ^ (e + 1)\<close>, for positive \<open>p\<close>, \<open>q\<close>.\<close>

definition ilog2 :: "nat \<Rightarrow> nat \<Rightarrow> int" where
  "ilog2 p q =
     (let e0 = int (bits p) - int (bits q)
      in if (if e0 \<ge> 0 then q * 2 ^ nat e0 \<le> p else q \<le> p * 2 ^ nat (- e0)) then e0
         else e0 - 1)"

text \<open>The integer nearest to \<open>n / d\<close>, ties to the even one.\<close>

definition roundHalfEven :: "nat \<Rightarrow> nat \<Rightarrow> nat" where
  "roundHalfEven n d =
     (let f = n div d; r = n mod d
      in if 2 * r < d then f else if d < 2 * r then f + 1 else if even f then f else f + 1)"

text \<open>
  The double nearest to \<open>p / q\<close>, as a fraction: zero for \<open>p = 0\<close>, otherwise a 53-bit
  significand scaled by a power of two.
\<close>

definition toDouble :: "nat \<Rightarrow> nat \<Rightarrow> nat \<times> nat" where
  "toDouble p q =
     (if p = 0 then (0, 1)
      else
        let e = ilog2 p q - 52
        in if e \<ge> 0 then (roundHalfEven p (q * 2 ^ nat e) * 2 ^ nat e, 1)
           else (roundHalfEven (p * 2 ^ nat (- e)) q, 2 ^ nat (- e)))"

text \<open>\<open>Math.round\<close> of the non-negative fraction \<open>n / d\<close>: \<open>floor (n / d + 1 / 2)\<close>.\<close>

definition mathRound :: "nat \<times> nat \<Rightarrow> nat" where
  "mathRound x = (case x of (n, d) \<Rightarrow> (2 * n + d) div (2 * d))"

text \<open>\<open>total > 0 ? Math.round((done / total) * 100) : 0\<close>.\<close>

definition computePercentage :: "nat \<Rightarrow> nat \<Rightarrow> nat" where
  "computePercentage nDone nTotal =
     (if nTotal > 0 then
        (case toDouble nDone nTotal of
           (n, d) \<Rightarrow> mathRound (toDouble (n * 100) d))
      else 0)"

subsection \<open>The accumulator of \<open>tasks.reduce\<close>\<close>

text \<open>
  \<open>acc[task.status]\<close> turns the status into a property key. The conversion throws a
  TypeError for an object that has an own property \<open>toString\<close> (no value of a parsed
  document is callable), also when such an object is met while an array is joined.
\<close>

fun keyThrows :: "json \<Rightarrow> bool" where
  "keyThrows (JObj kvs) = (map_of kvs ''toString'' \<noteq> None)"
| "keyThrows (JArr xs) = list_ex keyThrows xs"
| "keyThrows v = False"

text \<open>
  The key, where it can be one of the names the accumulator holds: a string is its own
  key, and an array of one element has the key of that element. \<open>None\<close> stands for every
  other key: the text of a number, \<open>undefined\<close>, \<open>null\<close>, \<open>true\<close>, \<open>false\<close>,
  \<open>[object Object]\<close>, the empty join, or a join with a comma.
\<close>

fun keyName :: "json option \<Rightarrow> string option" where
  "keyName (Some (JStr s)) = Some s"
| "keyName (Some (JArr [x])) = keyName (Some x)"
| "keyName v = None"

text \<open>
  \<open>acc.subtasks\<close> starts as the object of subtask counts; the flag tells whether that
  object has got an own property \<open>toString\<close> (a string, after a subtask with that
  status). A task with the status \<open>subtasks\<close> replaces the object by a string.
\<close>

datatype subtasks_slot = Counts bool | Text

record stats =
  st_total :: nat
  st_subtotalTasks :: nat
  st_pending :: nat
  st_in_progress :: nat
  st_done :: nat
  st_review :: nat
  st_deferred :: nat
  st_cancelled :: nat
  st_subtasks :: subtasks_slot

definition initialStats :: stats where
  "initialStats =
     \<lparr> st_total = 0, st_subtotalTasks = 0, st_pending = 0, st_in_progress = 0, st_done = 0,
       st_review = 0, st_deferred = 0, st_cancelled = 0, st_subtasks = Counts False \<rparr>"

text \<open>
  \<open>acc[k] = (acc[k] || 0) + 1\<close>. Every counter is a number and grows by one. Adding one to
  the object of subtask counts converts it to a string, which throws once the object has
  an own \<open>toString\<close>. A key outside the accumulator's names leaves what is modelled
  unchanged.
\<close>

definition bump :: "stats \<Rightarrow> string option \<Rightarrow> js_error + stats" where
  "bump acc key =
     (case key of
        None \<Rightarrow> Inr acc
      | Some k \<Rightarrow>
          if k = ''total'' then Inr (acc\<lparr>st_total := st_total acc + 1\<rparr>)
          else if k = ''subtotalTasks'' then Inr (acc\<lparr>st_subtotalTasks := st_subtotalTasks acc + 1\<rparr>)
          else if k = ''pending'' then Inr (acc\<lparr>st_pending := st_pending acc + 1\<rparr>)
          else if k = ''in-progress'' then Inr (acc\<lparr>st_in_progress := st_in_progress acc + 1\<rparr>)
          else if k = ''done'' then Inr (acc\<lparr>st_done := st_done acc + 1\<rparr>)
          else if k = ''review'' then Inr (acc\<lparr>st_review := st_review acc + 1\<rparr>)
          else if k = ''deferred'' then Inr (acc\<lparr>st_deferred := st_deferred acc + 1\<rparr>)
          else if k = ''cancelled'' then Inr (acc\<lparr>st_cancelled := st_cancelled acc + 1\<rparr>)
          else if k = ''subtasks'' then
            (case st_subtasks acc of
               Counts False \<Rightarrow> Inr (acc\<lparr>st_subtasks := Text\<rparr>)
             | Counts True \<Rightarrow> Inl TypeError
             | Text \<Rightarrow> Inr acc)
          else Inr acc)"

text \<open>
  The callback of \<open>task.subtasks.forEach\<close>. The module is strict code, so assigning to a
  property of the string that \<open>acc.subtasks\<close> may have become throws.
\<close>

definition countSubtask :: "stats \<Rightarrow> json \<Rightarrow> js_error + stats" where
  "countSubtask acc subtask =
     (let acc1 = acc\<lparr>st_subtotalTasks := st_subtotalTasks acc + 1\<rparr>
      in case getProp (Some subtask) ''status'' of
           Inl e \<Rightarrow> Inl e
         | Inr s \<Rightarrow>
             if (case s of None \<Rightarrow> False | Some v \<Rightarrow> keyThrows v) then Inl TypeError
             else
               (case st_subtasks acc1 of
                  Text \<Rightarrow> Inl TypeError
                | Counts f \<Rightarrow>
                    Inr (acc1\<lparr>st_subtasks := Counts (f \<or> keyName s = Some ''toString'')\<rparr>)))"

fun countSubtasks :: "stats \<Rightarrow> json list \<Rightarrow> js_error + stats" where
  "countSubtasks acc [] = Inr acc"
| "countSubtasks acc (subtask # rest) =
     (case countSubtask acc subtask of
        Inl e \<Rightarrow> Inl e
      | Inr acc' \<Rightarrow> countSubtasks acc' rest)"

text \<open>The callback of \<open>tasks.reduce\<close>.\<close>

definition countTask :: "stats \<Rightarrow> json \<Rightarrow> js_error + stats" where
  "countTask acc task =
     (let acc1 = acc\<lparr>st_total := st_total acc + 1\<rparr>
      in case getProp (Some task) ''status'' of
           Inl e \<Rightarrow> Inl e
         | Inr s \<Rightarrow>
             if (case s of None \<Rightarrow> False | Some v \<Rightarrow> keyThrows v) then Inl TypeError
             else
               (case bump acc1 (keyName s) of
                  Inl e \<Rightarrow> Inl e
                | Inr acc2 \<Rightarrow>
                    (case getProp (Some task) ''subtasks'' of
                       Inl e \<Rightarrow> Inl e
                     | Inr subs \<Rightarrow>
                         if truthy subs then
                           (case subs of
                              Some (JArr xs) \<Rightarrow> countSubtasks acc2 xs
                            | _ \<Rightarrow> Inl TypeError)
                         else Inr acc2)))"

fun reduceStats :: "stats \<Rightarrow> json list \<Rightarrow> js_error + stats" where
  "reduceStats acc [] = Inr acc"
| "reduceStats acc (task # rest) =
     (case countTask acc task of
        Inl e \<Rightarrow> Inl e
      | Inr acc' \<Rightarrow> reduceStats acc' rest)"

text \<open>
  The tasks that are counted: \<open>tasksData.tasks\<close> when truthy, otherwise the \<open>tasks\<close> of
  every tag, concatenated (\<open>concat\<close> appends the elements of an array and any other value
  as one element).
\<close>

fun concatTags :: "json list \<Rightarrow> json list \<Rightarrow> js_error + json list" where
  "concatTags acc [] = Inr acc"
| "concatTags acc (tagData # rest) =
     (case getProp (Some tagData) ''tasks'' of
        Inl e \<Rightarrow> Inl e
      | Inr t \<Rightarrow>
          if truthy t then
            (case t of
               Some (JArr xs) \<Rightarrow> concatTags (acc @ xs) rest
             | Some v \<Rightarrow> concatTags (acc @ [v]) rest
             | None \<Rightarrow> concatTags acc rest)
          else concatTags acc rest)"

definition collectTasks :: "json \<Rightarrow> js_error + json option" where
  "collectTasks tasksData =
     (case getProp (Some tasksData) ''tasks'' of
        Inl e \<Rightarrow> Inl e
      | Inr t \<Rightarrow>
          if truthy t then Inr t
          else
            (case concatTags [] (map snd (objectEntries tasksData)) of
               Inl e \<Rightarrow> Inl e
             | Inr xs \<Rightarrow> Inr (Some (JArr xs))))"

text \<open>\<open>tasks.reduce(...)\<close>: only an array has \<open>reduce\<close>.\<close>

definition computeStats :: "json option \<Rightarrow> js_error + stats" where
  "computeStats ts =
     (case ts of
        Some (JArr xs) \<Rightarrow> reduceStats initialStats xs
      | _ \<Rightarrow> Inl TypeError)"

record task_metadata =
  taskCount :: nat
  subtaskCount :: nat
  completed :: nat
  pending :: nat
  inProgress :: nat
  review :: nat
  completionPercentage :: nat
  lastModified :: string

text \<open>
  The field \<open>metadata\<close> of the detection result: \<open>null\<close>, the counts, or
  \<open>{ error: 'Failed to parse tasks.json' }\<close> when anything in the \<open>try\<close> block threw.
\<close>

datatype metadata_field = NoMetadata | MetadataError | Metadata task_metadata

definition metadataOf :: "stats \<Rightarrow> string \<Rightarrow> task_metadata" where
  "metadataOf st mtime =
     \<lparr> taskCount = st_total st,
       subtaskCount = st_subtotalTasks st,
       completed = st_done st,
       pending = st_pending st,
       inProgress = st_in_progress st,
       review = st_review st,
       completionPercentage = computePercentage (st_done st) (st_total st),
       lastModified = mtime \<rparr>"

text \<open>
  \<open>tasksFile\<close> is the outcome of \<open>readFile\<close> and \<open>JSON.parse\<close> (\<open>None\<close> when either
  throws), \<open>mtime\<close> that of \<open>stat(tasksPath).mtime.toISOString()\<close>.
\<close>

definition taskMetadataOf :: "json option \<Rightarrow> string option \<Rightarrow> metadata_field" where
  "taskMetadataOf tasksFile mtime =
     (case tasksFile of
        None \<Rightarrow> MetadataError
      | Some tasksData \<Rightarrow>
          (case collectTasks tasksData of
             Inl e \<Rightarrow> MetadataError
           | Inr ts \<Rightarrow>
               (case computeStats ts of
                  Inl e \<Rightarrow> MetadataError
                | Inr st \<Rightarrow>
                    (case mtime of
                       None \<Rightarrow> MetadataError
                     | Some m \<Rightarrow> Metadata (metadataOf st m)))))"

section \<open>Detection of the \<open>.taskmaster\<close> folder\<close>

text \<open>
  What \<open>detectTaskMasterFolder\<close> observes of the file system: the outcome of \<open>stat\<close> on
  the \<open>.taskmaster\<close> path (missing, another error with its message, not a directory, a
  directory), whether \<open>access(file, R_OK)\<close> succeeds for a key file, and the outcomes of
  reading the tasks file and of reading its modification time.
\<close>

datatype stat_result = ENOENT | StatFailed string | NotADirectory | IsDirectory

record fs_view =
  taskmasterStat :: stat_result
  canRead :: "string \<Rightarrow> bool"
  tasksFile :: "json option"
  tasksMtime :: "string option"

text \<open>
  The result object; a property that the returned object lacks is \<open>None\<close>. The \<open>path\<close>
  property, which repeats the path that was examined, is left out.
\<close>

record taskmaster_result =
  hasTaskmaster :: bool
  hasEssentialFiles :: "bool option"
  files :: "(string \<times> bool) list option"
  metadata :: "metadata_field option"
  reason :: "string option"

definition keyFiles :: "string list" where
  "keyFiles = [''tasks/tasks.json'', ''config.json'']"

definition detectTaskMasterFolder :: "fs_view \<Rightarrow> taskmaster_result" where
  "detectTaskMasterFolder fs =
     (case taskmasterStat fs of
        NotADirectory \<Rightarrow>
          \<lparr> hasTaskmaster = False, hasEssentialFiles = None, files = None, metadata = None,
            reason = Some ''.taskmaster exists but is not a directory'' \<rparr>
      | ENOENT \<Rightarrow>
          \<lparr> hasTaskmaster = False, hasEssentialFiles = None, files = None, metadata = None,
            reason = Some ''.taskmaster directory not found'' \<rparr>
      | StatFailed message \<Rightarrow>
          \<lparr> hasTaskmaster = False, hasEssentialFiles = None, files = None, metadata = None,
            reason = Some (''Error checking directory: '' @ message) \<rparr>
      | IsDirectory \<Rightarrow>
          let fileStatus = map (\<lambda>file. (file, canRead fs file)) keyFiles;
              essential = canRead fs ''tasks/tasks.json'';
              taskMetadata =
                (if map_of fileStatus ''tasks/tasks.json'' = Some True
                 then taskMetadataOf (tasksFile fs) (tasksMtime fs)
                 else NoMetadata)
          in \<lparr> hasTaskmaster = True, hasEssentialFiles = Some essential,
               files = Some fileStatus, metadata = Some taskMetadata, reason = None \<rparr>)"

section \<open>Detection of the MCP server: \<open>detectTaskMasterMCPServer\<close>\<close>

text \<open>\<open>s.includes(pat)\<close> on strings.\<close>

fun startsWith :: "string \<Rightarrow> string \<Rightarrow> bool" where
  "startsWith s [] = True"
| "startsWith [] (p # ps) = False"
| "startsWith (c # cs) (p # ps) = (c = p \<and> startsWith cs ps)"

fun includes_str :: "string \<Rightarrow> string \<Rightarrow> bool" where
  "includes_str [] pat = (pat = [])"
| "includes_str (c # cs) pat = (startsWith (c # cs) pat \<or> includes_str cs pat)"

text \<open>
  \<open>config.command.includes('task-master')\<close> for a truthy \<open>command\<close>: the substring test
  of a string, the membership test of an array, and a TypeError for anything else, which
  has no method \<open>includes\<close>.
\<close>

definition commandIncludes :: "json option \<Rightarrow> js_error + bool" where
  "commandIncludes c =
     (case c of
        Some (JStr s) \<Rightarrow> Inr (includes_str s ''task-master'')
      | Some (JArr xs) \<Rightarrow> Inr (JStr ''task-master'' \<in> set xs)
      | _ \<Rightarrow> Inl TypeError)"

text \<open>The predicate passed to \<open>find\<close>.\<close>

definition isTaskMasterEntry :: "string \<times> json \<Rightarrow> js_error + bool" where
  "isTaskMasterEntry entry =
     (case entry of (name, config) \<Rightarrow>
        if name = ''task-master-ai'' \<or> includes_str name ''task-master'' then Inr True
        else if truthy (Some config) then
          (case getProp (Some config) ''command'' of
             Inl e \<Rightarrow> Inl e
           | Inr c \<Rightarrow> if truthy c then commandIncludes c else Inr False)
        else Inr False)"

fun findServer :: "(string \<times> json) list \<Rightarrow> js_error + (string \<times> json) option" where
  "findServer [] = Inr None"
| "findServer (entry # rest) =
     (case isTaskMasterEntry entry of
        Inl e \<Rightarrow> Inl e
      | Inr True \<Rightarrow> Inr (Some entry)
      | Inr False \<Rightarrow> findServer rest)"

text \<open>\<open>v && typeof v === 'object'\<close>.\<close>

fun truthyObject :: "json option \<Rightarrow> bool" where
  "truthyObject (Some (JObj kvs)) = True"
| "truthyObject (Some (JArr xs)) = True"
| "truthyObject v = False"

record found_server =
  server_name :: string
  server_scope :: string
  server_projectPath :: "string option"
  server_config :: json
  server_type :: string

text \<open>\<open>config.command ? 'stdio' : (config.url ? 'http' : 'unknown')\<close>; throws for \<open>null\<close>.\<close>

definition serverTypeOf :: "json \<Rightarrow> js_error + string" where
  "serverTypeOf config =
     (case getProp (Some config) ''command'' of
        Inl e \<Rightarrow> Inl e
      | Inr c \<Rightarrow>
          if truthy c then Inr ''stdio''
          else
            (case getProp (Some config) ''url'' of
               Inl e \<Rightarrow> Inl e
             | Inr u \<Rightarrow> Inr (if truthy u then ''http'' else ''unknown'')))"

text \<open>The search of one \<open>mcpServers\<close> value, user-scoped or of a project.\<close>

definition searchServers ::
  "string \<Rightarrow> string option \<Rightarrow> json option \<Rightarrow> js_error + found_server option" where
  "searchServers scope projectPath mcpServers =
     (if truthyObject mcpServers then
        (case mcpServers of
           None \<Rightarrow> Inr None
         | Some servers \<Rightarrow>
             (case findServer (objectEntries servers) of
                Inl e \<Rightarrow> Inl e
              | Inr None \<Rightarrow> Inr None
              | Inr (Some (name, config)) \<Rightarrow>
                  (case serverTypeOf config of
                     Inl e \<Rightarrow> Inl e
                   | Inr ty \<Rightarrow>
                       Inr (Some \<lparr> server_name = name, server_scope = scope,
                                   server_projectPath = projectPath,
                                   server_config = config, server_type = ty \<rparr>))))
      else Inr None)"

text \<open>The loop over \<open>Object.entries(configData.projects)\<close>, left at the first match.\<close>

fun searchProjects :: "(string \<times> json) list \<Rightarrow> js_error + found_server option" where
  "searchProjects [] = Inr None"
| "searchProjects ((projectPath, projectConfig) # rest) =
     (case getProp (Some projectConfig) ''mcpServers'' of
        Inl e \<Rightarrow> Inl e
      | Inr servers \<Rightarrow>
          (case searchServers ''local'' (Some projectPath) servers of
             Inl e \<Rightarrow> Inl e
           | Inr (Some found) \<Rightarrow> Inr (Some found)
           | Inr None \<Rightarrow> searchProjects rest))"

definition findTaskMasterServer :: "json \<Rightarrow> js_error + found_server option" where
  "findTaskMasterServer configData =
     (case getProp (Some configData) ''mcpServers'' of
        Inl e \<Rightarrow> Inl e
      | Inr servers \<Rightarrow>
          (case searchServers ''user'' None servers of
             Inl e \<Rightarrow> Inl e
           | Inr (Some found) \<Rightarrow> Inr (Some found)
           | Inr None \<Rightarrow>
               (case getProp (Some configData) ''projects'' of
                  Inl e \<Rightarrow> Inl e
                | Inr projects \<Rightarrow>
                    (case projects of
                       None \<Rightarrow> Inr None
                     | Some ps \<Rightarrow>
                         if truthy projects then searchProjects (objectEntries ps)
                         else Inr None))))"

text \<open>The returned object; a property that the returned object lacks is \<open>None\<close>.\<close>

record mcp_config =
  command :: "json option"
  args :: json
  url :: "json option"
  envVars :: "string list"
  type_field :: string

datatype mcp_reason = NoConfigurationFile | ServerNotFound | ErrorChecking

record mcp_result =
  hasMCPServer :: bool
  isConfigured :: "bool option"
  hasApiKeys :: "bool option"
  scope :: "string option"
  config :: "mcp_config option"
  mcp_reason :: "mcp_reason option"
  hasConfig :: "bool option"
  configPath :: "string option"
  availableServers :: "string list option"

text \<open>The answer for a server that was found.\<close>

definition foundResult :: "found_server \<Rightarrow> js_error + mcp_result" where
  "foundResult server =
     (let cfg = server_config server in
      if truthy (Some cfg) then
        (case getProp (Some cfg) ''command'' of
           Inl e \<Rightarrow> Inl e
         | Inr c \<Rightarrow>
        (case getProp (Some cfg) ''url'' of
           Inl e \<Rightarrow> Inl e
         | Inr u \<Rightarrow>
        (case getProp (Some cfg) ''env'' of
           Inl e \<Rightarrow> Inl e
         | Inr env \<Rightarrow>
        (case getProp (Some cfg) ''args'' of
           Inl e \<Rightarrow> Inl e
         | Inr a \<Rightarrow>
             let isValid = (truthy c \<or> truthy u);
                 envKeys = (case env of None \<Rightarrow> [] | Some ev \<Rightarrow> map fst (objectEntries ev));
                 hasEnvVars = (truthy env \<and> length envKeys > 0)
             in Inr \<lparr> hasMCPServer = True, isConfigured = Some isValid,
                      hasApiKeys = Some hasEnvVars, scope = Some (server_scope server),
                      config = Some \<lparr> command = c, args = orDefault a (JArr []), url = u,
                                      envVars = (if hasEnvVars then envKeys else []),
                                      type_field = server_type server \<rparr>,
                      mcp_reason = None, hasConfig = None, configPath = None,
                      availableServers = None \<rparr>))))
      else
        Inr \<lparr> hasMCPServer = True, isConfigured = Some False, hasApiKeys = Some False,
              scope = Some (server_scope server),
              config = Some \<lparr> command = None, args = JArr [], url = None, envVars = [],
                              type_field = server_type server \<rparr>,
              mcp_reason = None, hasConfig = None, configPath = None,
              availableServers = None \<rparr>)"

text \<open>The names listed when no server was found.\<close>

fun localServerNames :: "json list \<Rightarrow> js_error + string list" where
  "localServerNames [] = Inr []"
| "localServerNames (projectConfig # rest) =
     (case getProp (Some projectConfig) ''mcpServers'' of
        Inl e \<Rightarrow> Inl e
      | Inr servers \<Rightarrow>
          (case localServerNames rest of
             Inl e \<Rightarrow> Inl e
           | Inr names \<Rightarrow>
               Inr ((case servers of
                       None \<Rightarrow> []
                     | Some sv \<Rightarrow>
                         if truthy servers
                         then map (\<lambda>name. ''local:'' @ name) (map fst (objectEntries sv))
                         else []) @ names)))"

definition availableServerNames :: "json \<Rightarrow> js_error + string list" where
  "availableServerNames configData =
     (case getProp (Some configData) ''mcpServers'' of
        Inl e \<Rightarrow> Inl e
      | Inr servers \<Rightarrow>
          (case getProp (Some configData) ''projects'' of
             Inl e \<Rightarrow> Inl e
           | Inr projects \<Rightarrow>
               (case localServerNames
                       (case projects of
                          None \<Rightarrow> []
                        | Some ps \<Rightarrow> if truthy projects then map snd (objectEntries ps) else [])
                of
                  Inl e \<Rightarrow> Inl e
                | Inr names \<Rightarrow>
                    Inr ((case servers of
                            None \<Rightarrow> []
                          | Some sv \<Rightarrow> if truthy servers then map fst (objectEntries sv) else [])
                         @ names))))"

definition errorResult :: mcp_result where
  "errorResult =
     \<lparr> hasMCPServer = False, isConfigured = None, hasApiKeys = None, scope = None,
       config = None, mcp_reason = Some ErrorChecking, hasConfig = Some False,
       configPath = None, availableServers = None \<rparr>"

text \<open>
  The first configuration file that can be read and parsed; each candidate is its path
  with the outcome of \<open>readFile\<close> and \<open>JSON.parse\<close> (\<open>None\<close> when either throws).
\<close>

fun readConfig :: "(string \<times> json option) list \<Rightarrow> (string \<times> json) option" where
  "readConfig [] = None"
| "readConfig ((filepath, None) # rest) = readConfig rest"
| "readConfig ((filepath, Some configData) # rest) = Some (filepath, configData)"

definition detectTaskMasterMCPServer :: "(string \<times> json option) list \<Rightarrow> mcp_result" where
  "detectTaskMasterMCPServer configFiles =
     (case readConfig configFiles of
        None \<Rightarrow>
          \<lparr> hasMCPServer = False, isConfigured = None, hasApiKeys = None, scope = None,
            config = None, mcp_reason = Some NoConfigurationFile, hasConfig = Some False,
            configPath = None, availableServers = None \<rparr>
      | Some (filepath, configData) \<Rightarrow>
          if \<not> truthy (Some configData) then
            \<lparr> hasMCPServer = False, isConfigured = None, hasApiKeys = None, scope = None,
              config = None, mcp_reason = Some NoConfigurationFile, hasConfig = Some False,
              configPath = None, availableServers = None \<rparr>
          else
            (case findTaskMasterServer configData of
               Inl e \<Rightarrow> errorResult
             | Inr (Some server) \<Rightarrow>
                 (case foundResult server of Inl e \<Rightarrow> errorResult | Inr r \<Rightarrow> r)
             | Inr None \<Rightarrow>
                 (case availableServerNames configData of
                    Inl e \<Rightarrow> errorResult
                  | Inr names \<Rightarrow>
                      \<lparr> hasMCPServer = False, isConfigured = None, hasApiKeys = None,
                        scope = None, config = None, mcp_reason = Some ServerNotFound,
                        hasConfig = Some True, configPath = Some filepath,
                        availableServers = Some names \<rparr>)))"

section \<open>The overall status of the \<open>detect\<close> routes\<close>

text \<open>
  Both \<open>GET /detect/:projectName\<close> and \<open>GET /detect-all\<close> derive \<open>status\<close> from the
  two detection results with the same statements. A condition \<open>a && b\<close> holds when both
  properties are \<open>true\<close>; an absent property is falsy.
\<close>

definition determineStatus :: "taskmaster_result \<Rightarrow> mcp_result \<Rightarrow> string" where
  "determineStatus taskMasterResult mcpResult =
     (if hasTaskmaster taskMasterResult \<and> hasEssentialFiles taskMasterResult = Some True then
        (if hasMCPServer mcpResult \<and> isConfigured mcpResult = Some True
         then ''fully-configured''
         else ''taskmaster-only'')
      else if hasMCPServer mcpResult \<and> isConfigured mcpResult = Some True then ''mcp-only''
      else ''not-configured'')"

text \<open>
  The contract of the specification (section 4.1): the status as a function of the two
  booleans \<open>taskmasterPresent\<close> and \<open>mcpConfigured\<close>, row by row of the truth table.
\<close>

fun reconcile :: "bool \<Rightarrow> bool \<Rightarrow> string" where
  "reconcile True True = ''fully-configured''"
| "reconcile True False = ''taskmaster-only''"
| "reconcile False True = ''mcp-only''"
| "reconcile False False = ''not-configured''"

section \<open>Templates: placeholders and their substitution\<close>

subsection \<open>The scan of \<open>handleSelectTemplate\<close>\<close>

text \<open>
  \<open>template.content.match(/\[([^\]]+)\]/g) || []\<close>: the matches from left to right. A
  match starts at an opening bracket, takes the longest run of characters other than the
  closing bracket, which must not be empty, and ends at the closing bracket after it; the
  search goes on behind the match. Where no match starts, the search moves on by one
  character.
\<close>

function placeholderMatches :: "string \<Rightarrow> string list" where
  "placeholderMatches [] = []"
| "placeholderMatches (c # cs) =
     (if c = CHR ''[''
         \<and> takeWhile (\<lambda>x. x \<noteq> CHR '']'') cs \<noteq> []
         \<and> dropWhile (\<lambda>x. x \<noteq> CHR '']'') cs \<noteq> []
      then (c # takeWhile (\<lambda>x. x \<noteq> CHR '']'') cs @ '']'')
           # placeholderMatches (tl (dropWhile (\<lambda>x. x \<noteq> CHR '']'') cs))
      else placeholderMatches cs)"
  by pat_completeness auto
termination
proof (relation "measure length")
  show "wf (measure (length :: string \<Rightarrow> nat))"
    by simp
next
  fix c :: char and cs :: string
  have "length (tl (dropWhile (\<lambda>x. x \<noteq> CHR '']'') cs)) \<le> length cs"
    using length_dropWhile_le [of "\<lambda>x. x \<noteq> CHR '']''" cs] by simp
  then show "(tl (dropWhile (\<lambda>x. x \<noteq> CHR '']'') cs), c # cs) \<in> measure length"
    by simp
next
  fix c :: char and cs :: string
  show "(cs, c # cs) \<in> measure length"
    by simp
qed

text \<open>\<open>p.slice(1, -1)\<close>: the string without its first and its last character.\<close>

definition slice1 :: "string \<Rightarrow> string" where
  "slice1 p = butlast (tl p)"

text \<open>
  \<open>[...new Set(xs)]\<close>: the elements are added one after the other, an element that is in
  the set already is not added again, and the set enumerates in the order of insertion.
\<close>

fun addAll :: "'a list \<Rightarrow> 'a list \<Rightarrow> 'a list" where
  "addAll seen [] = seen"
| "addAll seen (x # xs) = addAll (if x \<in> set seen then seen else seen @ [x]) xs"

definition uniquePlaceholders :: "string \<Rightarrow> string list" where
  "uniquePlaceholders content = addAll [] (map slice1 (placeholderMatches content))"

text \<open>
  A text is closed when it has no opening bracket behind its last closing bracket (or
  none at all, if it has no closing bracket).
\<close>

definition closedText :: "string \<Rightarrow> bool" where
  "closedText p \<longleftrightarrow> CHR ''['' \<notin> set (takeWhile (\<lambda>x. x \<noteq> CHR '']'') (rev p))"

text \<open>
  A match of the scan, in terms of the text. \<open>scanMatchAt content i run\<close> says that the
  regular expression of the scan matches at index \<open>i\<close> with \<open>run\<close> between the brackets:
  an opening bracket, a non-empty run of characters other than the closing bracket, and a
  closing bracket, where the text before the match is closed, so that the search, which
  goes on behind the previous match, comes to this opening bracket before any other
  that could start a match.
\<close>

definition scanMatchAt :: "string \<Rightarrow> nat \<Rightarrow> string \<Rightarrow> bool" where
  "scanMatchAt content i run \<longleftrightarrow>
     run \<noteq> [] \<and> CHR '']'' \<notin> set run \<and>
     i + length run + 2 \<le> length content \<and>
     take (length run + 2) (drop i content) = ''['' @ run @ '']'' \<and>
     closedText (take i content)"

text \<open>
  A placeholder of a template text, in the words of the specification: the text
  \<open>[Name]\<close>, where the name is not empty and has no bracket in it.
  \<open>placeholderAt content i name\<close> says that the placeholder \<open>[name]\<close> stands at index
  \<open>i\<close> of the text.
\<close>

definition placeholderAt :: "string \<Rightarrow> nat \<Rightarrow> string \<Rightarrow> bool" where
  "placeholderAt content i name \<longleftrightarrow>
     name \<noteq> [] \<and> CHR ''['' \<notin> set name \<and> CHR '']'' \<notin> set name \<and>
     i + length name + 2 \<le> length content \<and>
     take (length name + 2) (drop i content) = ''['' @ name @ '']''"

text \<open>
  Whether a bracket is open behind a text: the last bracket of the text is an opening
  one (\<open>opened\<close> says whether one was open before the text).
\<close>

fun openAfter :: "bool \<Rightarrow> string \<Rightarrow> bool" where
  "openAfter opened [] = opened"
| "openAfter opened (c # cs) =
     openAfter (if c = CHR ''['' then True else if c = CHR '']'' then False else opened) cs"

text \<open>
  A text whose opening brackets do not nest: no opening bracket follows another opening
  bracket without a closing bracket between the two (\<open>opened\<close> says whether a bracket
  is open before the text; a whole text is read with \<open>False\<close>). A closing bracket
  without an opening one, and a last opening bracket that is never closed, are allowed.
\<close>

fun unnested :: "bool \<Rightarrow> string \<Rightarrow> bool" where
  "unnested opened [] = True"
| "unnested opened (c # cs) =
     (if c = CHR ''['' then \<not> opened \<and> unnested True cs
      else if c = CHR '']'' then unnested False cs
      else unnested opened cs)"

text \<open>
  The matches of the scan together with the index at which each starts, and the name in
  place of the bracketed match.
\<close>

function matchesFrom :: "nat \<Rightarrow> string \<Rightarrow> (nat \<times> string) list" where
  "matchesFrom i [] = []"
| "matchesFrom i (c # cs) =
     (if c = CHR ''[''
         \<and> takeWhile (\<lambda>x. x \<noteq> CHR '']'') cs \<noteq> []
         \<and> dropWhile (\<lambda>x. x \<noteq> CHR '']'') cs \<noteq> []
      then (i, takeWhile (\<lambda>x. x \<noteq> CHR '']'') cs)
           # matchesFrom (i + length (takeWhile (\<lambda>x. x \<noteq> CHR '']'') cs) + 2)
               (tl (dropWhile (\<lambda>x. x \<noteq> CHR '']'') cs))
      else matchesFrom (Suc i) cs)"
  by pat_completeness auto
termination
proof (relation "measure (\<lambda>(i, s). length s)")
  show "wf (measure (\<lambda>(i :: nat, s :: string). length s))"
    by simp
next
  fix i :: nat and c :: char and cs :: string
  have "length (tl (dropWhile (\<lambda>x. x \<noteq> CHR '']'') cs)) \<le> length cs"
    using length_dropWhile_le [of "\<lambda>x. x \<noteq> CHR '']''" cs] by simp
  then show "((i + length (takeWhile (\<lambda>x. x \<noteq> CHR '']'') cs) + 2,
               tl (dropWhile (\<lambda>x. x \<noteq> CHR '']'') cs)), (i, c # cs))
             \<in> measure (\<lambda>(i, s). length s)"
    by simp
next
  fix i :: nat and c :: char and cs :: string
  show "((Suc i, cs), (i, c # cs)) \<in> measure (\<lambda>(i, s). length s)"
    by simp
qed

subsection \<open>The substitution of \<open>POST /apply-template/:projectName\<close>\<close>

definition backslash :: char where
  "backslash = CHR 0x5C"

text \<open>
  \<open>placeholder.replace(/[.*+?^${}()|[\\]\\\\]/g, '\\\\$&')\<close>. The regular expression
  is a character class holding \<open>. * + ? ^ $ { } ( ) | [\<close> and the backslash, followed by
  two backslashes and a closing bracket; each match is replaced by two backslashes and the
  match.
\<close>

definition specialChars :: "char list" where
  "specialChars = ''.*+?^${}()|['' @ [backslash]"

fun escapePlaceholder :: "string \<Rightarrow> string" where
  "escapePlaceholder (c # b1 # b2 # d # rest) =
     (if c \<in> set specialChars \<and> b1 = backslash \<and> b2 = backslash \<and> d = CHR '']''
      then [backslash, backslash, c, b1, b2, d] @ escapePlaceholder rest
      else c # escapePlaceholder (b1 # b2 # d # rest))"
| "escapePlaceholder (c # rest) = c # escapePlaceholder rest"
| "escapePlaceholder [] = []"

text \<open>
  \<open>new RegExp(source, 'g')\<close> for the sources modelled here: an opening bracket, characters
  that stand for themselves inside a character class (no backslash, closing bracket,
  caret or hyphen), and a closing bracket. Such a source is the character class of these
  characters, which matches any one of them. Any other source is \<open>None\<close>: it is outside
  the model.
\<close>

definition classChar :: "char \<Rightarrow> bool" where
  "classChar c \<longleftrightarrow> c \<noteq> backslash \<and> c \<noteq> CHR '']'' \<and> c \<noteq> CHR ''^'' \<and> c \<noteq> CHR ''-''"

definition compileClass :: "string \<Rightarrow> char list option" where
  "compileClass source =
     (case source of
        [] \<Rightarrow> None
      | c # rest \<Rightarrow>
          if c = CHR ''['' \<and> rest \<noteq> [] \<and> last rest = CHR '']'' \<and> list_all classChar (butlast rest)
          then Some (butlast rest)
          else None)"

text \<open>
  The replacement text of one match when the second argument of \<open>replace\<close> is a string
  and the expression has no groups: \<open>$$\<close> is a dollar sign, \<open>$&\<close> the match, \<open>$`\<close> the
  part of the subject before the match, \<open>$'\<close> the part behind it; every other character,
  a lone dollar sign too, stands for itself.
\<close>

fun expandReplacement :: "string \<Rightarrow> string \<Rightarrow> string \<Rightarrow> string \<Rightarrow> string" where
  "expandReplacement matched pre post (c # d # rest) =
     (if c = CHR ''$'' \<and> d = CHR ''$'' then CHR ''$'' # expandReplacement matched pre post rest
      else if c = CHR ''$'' \<and> d = CHR ''&'' then matched @ expandReplacement matched pre post rest
      else if c = CHR ''$'' \<and> d = CHR 0x60 then pre @ expandReplacement matched pre post rest
      else if c = CHR ''$'' \<and> d = CHR 0x27 then post @ expandReplacement matched pre post rest
      else c # expandReplacement matched pre post (d # rest))"
| "expandReplacement matched pre post [c] = [c]"
| "expandReplacement matched pre post [] = []"

text \<open>
  \<open>subject.replace(re, value)\<close> for a global character class: every character of the
  class is replaced; \<open>pre\<close> is the part of the subject already passed.
\<close>

fun replaceClass :: "char list \<Rightarrow> string \<Rightarrow> string \<Rightarrow> string \<Rightarrow> string" where
  "replaceClass cls val pre [] = []"
| "replaceClass cls val pre (c # rest) =
     (if c \<in> set cls then expandReplacement [c] pre rest val else [c])
     @ replaceClass cls val (pre @ [c]) rest"

text \<open>
  The loop over \<open>Object.entries(customizations)\<close>, for string values as the client sends
  them.
\<close>

fun applyCustomizations :: "string \<Rightarrow> (string \<times> string) list \<Rightarrow> string option" where
  "applyCustomizations content [] = Some content"
| "applyCustomizations content ((key, val) # rest) =
     (case compileClass (escapePlaceholder (''['' @ key @ '']'')) of
        None \<Rightarrow> None
      | Some cls \<Rightarrow> applyCustomizations (replaceClass cls val [] content) rest)"

text \<open>
  The substitution of the specification (section 4.3), in words: every literal occurrence
  of \<open>[key]\<close> is replaced by the value, taken literally; the text outside is kept.
\<close>

function substituteLiteral :: "string \<Rightarrow> string \<Rightarrow> string \<Rightarrow> string" where
  "substituteLiteral key val [] = []"
| "substituteLiteral key val (c # cs) =
     (if startsWith (c # cs) (''['' @ key @ '']'')
      then val @ substituteLiteral key val (drop (length key + 1) cs)
      else c # substituteLiteral key val cs)"
  by pat_completeness auto
termination
  by (relation "measure (\<lambda>(key, val, s). length s)") auto

section \<open>The statements of the specification, in words\<close>

text \<open>A clock that reads the same time at every place.\<close>

definition fixedClock :: "string \<Rightarrow> nat \<Rightarrow> string" where
  "fixedClock t k = t"



text \<open>The \<open>tasks\<close> field of a value, when the value is an object that has one.\<close>

fun tasksField :: "json \<Rightarrow> json option" where
  "tasksField (JObj kvs) = map_of kvs ''tasks''"
| "tasksField v = None"

text \<open>The \<open>tasks\<close> field of the value stored under a key of an object.\<close>

definition tagField :: "(string \<times> json) list \<Rightarrow> string \<Rightarrow> json option" where
  "tagField kvs k = (case map_of kvs k of None \<Rightarrow> None | Some m \<Rightarrow> tasksField m)"

text \<open>
  The shape resolution as section 4.2 of the specification words it: a list is the task
  list; else a \<open>tasks\<close> field that is a list; else \<open>master.tasks\<close> when it exists; else
  the first key whose value has a \<open>tasks\<close> list; else the empty list. The tag is
  \<open>master\<close> except under the fourth rule.
\<close>

fun firstTagWithList :: "(string \<times> json) list \<Rightarrow> (string \<times> json) option" where
  "firstTagWithList [] = None"
| "firstTagWithList ((k, v) # rest) =
     (case tasksField v of
        Some (JArr ts) \<Rightarrow> Some (k, JArr ts)
      | _ \<Rightarrow> firstTagWithList rest)"

definition resolveClaimed :: "json \<Rightarrow> json \<times> string" where
  "resolveClaimed rawJSON =
     (case rawJSON of
        JArr ts \<Rightarrow> (JArr ts, ''master'')
      | JObj kvs \<Rightarrow>
          (case map_of kvs ''tasks'' of
             Some (JArr ts) \<Rightarrow> (JArr ts, ''master'')
           | _ \<Rightarrow>
               (case tagField kvs ''master'' of
                  Some t \<Rightarrow> (t, ''master'')
                | None \<Rightarrow>
                    (case firstTagWithList kvs of
                       Some (k, t) \<Rightarrow> (t, k)
                     | None \<Rightarrow> (JArr [], ''master''))))
      | _ \<Rightarrow> (JArr [], ''master''))"

text \<open>
  The shape resolution as the handler performs it, by the shape of the input: a list is
  taken; \<open>null\<close> raises an error; for an object, a truthy \<open>tasks\<close> field is taken
  whatever it is, else a truthy \<open>master.tasks\<close>, else the \<open>tasks\<close> of the first key whose
  value has a \<open>tasks\<close> list, where a \<open>null\<close> value met before such a key raises an
  error, and where such a first key that is the empty string counts as no key at all; in
  every other case the list is empty and the tag is \<open>master\<close>.
\<close>

fun scanTags :: "(string \<times> json) list \<Rightarrow> js_error + string option" where
  "scanTags [] = Inr None"
| "scanTags ((k, JNull) # rest) = Inl TypeError"
| "scanTags ((k, v) # rest) =
     (case tasksField v of
        Some (JArr ts) \<Rightarrow> Inr (Some k)
      | _ \<Rightarrow> scanTags rest)"

definition resolveByShape :: "json \<Rightarrow> js_error + (json option \<times> string)" where
  "resolveByShape rawJSON =
     (case rawJSON of
        JArr ts \<Rightarrow> Inr (Some (JArr ts), ''master'')
      | JNull \<Rightarrow> Inl TypeError
      | JObj kvs \<Rightarrow>
          if truthy (map_of kvs ''tasks'') then Inr (map_of kvs ''tasks'', ''master'')
          else if truthy (tagField kvs ''master'') then Inr (tagField kvs ''master'', ''master'')
          else
            (case scanTags kvs of
               Inl e \<Rightarrow> Inl e
             | Inr None \<Rightarrow> Inr (Some (JArr []), ''master'')
             | Inr (Some k) \<Rightarrow>
                 if k = [] then Inr (Some (JArr []), ''master'') else Inr (tagField kvs k, k))
      | _ \<Rightarrow> Inr (Some (JArr []), ''master''))"












text \<open>
  An output field is the source value when that is truthy, and the default otherwise
  (when the source record omits the field or holds \<open>null\<close>, \<open>false\<close>, \<open>0\<close> or \<open>""\<close>).
\<close>

definition keptOrDefault :: "json option \<Rightarrow> json \<Rightarrow> json \<Rightarrow> bool" where
  "keptOrDefault src d out = (if truthy src then src = Some out else out = d)"



text \<open>The six status values of the data model.\<close>

definition statusValues :: "string list" where
  "statusValues = [''pending'', ''in-progress'', ''done'', ''review'', ''deferred'', ''cancelled'']"


text \<open>
  In a list, the first occurrence of \<open>x\<close> comes before every occurrence of \<open>y\<close>.
\<close>

definition firstBefore :: "'a list \<Rightarrow> 'a \<Rightarrow> 'a \<Rightarrow> bool" where
  "firstBefore ns x y \<longleftrightarrow>
     (\<exists>k < length ns. ns ! k = x \<and> (\<forall>k' < length ns. ns ! k' = y \<longrightarrow> k < k'))"


text \<open>
  A task record as the tool writes it: an object whose status, if present, is a string
  other than the accumulator's own keys \<open>total\<close> and \<open>subtasks\<close>, and whose subtasks,
  if present and truthy, are a list of objects whose status, if present, is a string.
\<close>

fun plainSubtask :: "json \<Rightarrow> bool" where
  "plainSubtask (JObj kvs) =
     (case map_of kvs ''status'' of None \<Rightarrow> True | Some (JStr s) \<Rightarrow> True | Some v \<Rightarrow> False)"
| "plainSubtask v = False"

fun plainTask :: "json \<Rightarrow> bool" where
  "plainTask (JObj kvs) =
     ((case map_of kvs ''status'' of
         None \<Rightarrow> True
       | Some (JStr s) \<Rightarrow> s \<noteq> ''total'' \<and> s \<noteq> ''subtasks''
       | Some v \<Rightarrow> False)
      \<and> (case map_of kvs ''subtasks'' of
            None \<Rightarrow> True
          | Some (JArr subs) \<Rightarrow> list_all plainSubtask subs
          | Some v \<Rightarrow> \<not> truthy (Some v)))"
| "plainTask v = False"

text \<open>The number of tasks whose status is the string \<open>done\<close>.\<close>

definition doneCount :: "json list \<Rightarrow> nat" where
  "doneCount ts = length (filter (\<lambda>t. fieldOf t ''status'' = Some (JStr ''done'')) ts)"


section \<open>Properties\<close>

subsection \<open>Status reconciliation\<close>

text \<open>
  C1. For all detection results the status of the \<open>detect\<close> routes is the value of the
  truth table of section 4.1 at \<open>taskmasterPresent = hasTaskmaster \<and> hasEssentialFiles\<close>
  and \<open>mcpConfigured = hasMCPServer \<and> isConfigured\<close>: \<open>fully-configured\<close> for (true,
  true), \<open>taskmaster-only\<close> for (true, false), \<open>mcp-only\<close> for (false, true) and
  \<open>not-configured\<close> for (false, false). A project whose \<open>.taskmaster\<close> folder exists
  but whose tasks file cannot be read has \<open>hasEssentialFiles = false\<close> and so is
  neither \<open>fully-configured\<close> nor \<open>taskmaster-only\<close>.
\<close>

theorem status_follows_truth_table:
  "determineStatus tm mcp =
     reconcile (hasTaskmaster tm \<and> hasEssentialFiles tm = Some True)
               (hasMCPServer mcp \<and> isConfigured mcp = Some True)
   \<and> (taskmasterStat fs = IsDirectory \<and> \<not> canRead fs ''tasks/tasks.json'' \<longrightarrow>
        hasTaskmaster (detectTaskMasterFolder fs) \<and>
        hasEssentialFiles (detectTaskMasterFolder fs) = Some False \<and>
        determineStatus (detectTaskMasterFolder fs) mcp \<noteq> ''fully-configured'' \<and>
        determineStatus (detectTaskMasterFolder fs) mcp \<noteq> ''taskmaster-only'')"
proof (intro conjI impI)
  show "determineStatus tm mcp =
     reconcile (hasTaskmaster tm \<and> hasEssentialFiles tm = Some True)
               (hasMCPServer mcp \<and> isConfigured mcp = Some True)"
  proof -
    have table: "(if p then (if m then ''fully-configured'' else ''taskmaster-only'')
                  else if m then ''mcp-only'' else ''not-configured'') = reconcile p m"
      for p m
      by (cases p; cases m) simp_all
    show ?thesis
      unfolding determineStatus_def by (rule table)
  qed
next
  assume h: "taskmasterStat fs = IsDirectory \<and> \<not> canRead fs ''tasks/tasks.json''"
  then show "hasTaskmaster (detectTaskMasterFolder fs)"
    by (simp add: detectTaskMasterFolder_def Let_def)
  from h show e: "hasEssentialFiles (detectTaskMasterFolder fs) = Some False"
    by (simp add: detectTaskMasterFolder_def Let_def)
  from e show "determineStatus (detectTaskMasterFolder fs) mcp \<noteq> ''fully-configured''"
    by (simp add: determineStatus_def)
  from e show "determineStatus (detectTaskMasterFolder fs) mcp \<noteq> ''taskmaster-only''"
    by (simp add: determineStatus_def)
qed

theorem status_follows_truth_table_witness:
  "taskmasterStat \<lparr> taskmasterStat = IsDirectory, canRead = (\<lambda>file. file = ''config.json''),
                    tasksFile = None, tasksMtime = None \<rparr> = IsDirectory
   \<and> \<not> canRead \<lparr> taskmasterStat = IsDirectory, canRead = (\<lambda>file. file = ''config.json''),
                  tasksFile = None, tasksMtime = None \<rparr> ''tasks/tasks.json''
   \<and> determineStatus
        (detectTaskMasterFolder
           \<lparr> taskmasterStat = IsDirectory, canRead = (\<lambda>file. file = ''config.json''),
             tasksFile = None, tasksMtime = None \<rparr>)
        (detectTaskMasterMCPServer
           [(''/home/u/.claude.json'',
             Some (JObj [(''mcpServers'',
                          JObj [(''task-master-ai'',
                                 JObj [(''command'', JStr ''npx'')])])]))])
      = ''mcp-only''"
  using status_follows_truth_table
    [of "detectTaskMasterFolder
           \<lparr> taskmasterStat = IsDirectory, canRead = (\<lambda>file. file = ''config.json''),
             tasksFile = None, tasksMtime = None \<rparr>"
        "detectTaskMasterMCPServer
           [(''/home/u/.claude.json'',
             Some (JObj [(''mcpServers'',
                          JObj [(''task-master-ai'',
                                 JObj [(''command'', JStr ''npx'')])])]))]"
        "\<lparr> taskmasterStat = IsDirectory, canRead = (\<lambda>file. file = ''config.json''),
           tasksFile = None, tasksMtime = None \<rparr>"]
  by (simp add: detectTaskMasterMCPServer_def findTaskMasterServer_def searchServers_def
        isTaskMasterEntry_def serverTypeOf_def foundResult_def Let_def)

subsection \<open>Shape resolution, by the shape of the input\<close>

lemma getProp_tasks: "m \<noteq> JNull \<Longrightarrow> getProp (Some m) ''tasks'' = Inr (tasksField m)"
  by (cases m) simp_all

lemma falsy_tasksField: "\<not> truthy (Some m) \<Longrightarrow> tasksField m = None"
  by (cases m) simp_all

lemma hasTagTasks_obj: "hasTagTasks (JObj kvs) k = Inr (truthy (tagField kvs k))"
proof (cases "map_of kvs k")
  case None
  then show ?thesis by (simp add: hasTagTasks_def tagField_def)
next
  case (Some m)
  show ?thesis
  proof (cases "truthy (Some m)")
    case True
    then have "m \<noteq> JNull" by auto
    with Some True show ?thesis
      by (simp add: hasTagTasks_def tagField_def getProp_tasks)
  next
    case False
    with Some show ?thesis
      by (simp add: hasTagTasks_def tagField_def falsy_tasksField)
  qed
qed

lemma tagTasks_obj:
  "map_of kvs k = Some m \<Longrightarrow> m \<noteq> JNull \<Longrightarrow> tagTasks (JObj kvs) k = Inr (tagField kvs k)"
  by (simp add: tagTasks_def tagField_def getProp_tasks)

lemma truthy_tagField_lookup:
  "truthy (tagField kvs k) \<Longrightarrow> \<exists>m. map_of kvs k = Some m \<and> m \<noteq> JNull"
  by (cases "map_of kvs k") (auto simp: tagField_def)

lemma findFirstTag_scanTags: "findFirstTag kvs = scanTags kvs"
proof (induction kvs)
  case Nil
  show ?case by simp
next
  case (Cons e kvs)
  obtain k v where e: "e = (k, v)" by (cases e)
  show ?case
  proof (cases "v = JNull")
    case True
    with e show ?thesis by simp
  next
    case False
    then have g: "getProp (Some v) ''tasks'' = Inr (tasksField v)"
      by (rule getProp_tasks)
    have s: "scanTags ((k, v) # kvs) =
               (case tasksField v of Some (JArr ts) \<Rightarrow> Inr (Some k) | _ \<Rightarrow> scanTags kvs)"
      using False by (cases v) simp_all
    show ?thesis
      unfolding e s using g Cons.IH
      by (auto split: option.splits json.splits)
  qed
qed

lemma scanTags_found:
  "scanTags kvs = Inr (Some k) \<Longrightarrow> \<exists>m. map_of kvs k = Some m \<and> m \<noteq> JNull"
proof (induction kvs)
  case Nil
  then show ?case by simp
next
  case (Cons e kvs)
  obtain k' v where e: "e = (k', v)" by (cases e)
  from Cons.prems e have nn: "v \<noteq> JNull" by auto
  then have s: "scanTags ((k', v) # kvs) =
               (case tasksField v of Some (JArr ts) \<Rightarrow> Inr (Some k') | _ \<Rightarrow> scanTags kvs)"
    by (cases v) simp_all
  show ?case
  proof (cases "k = k'")
    case True
    with e nn show ?thesis by simp
  next
    case False
    with Cons.prems e s have "scanTags kvs = Inr (Some k)"
      by (auto split: option.splits json.splits)
    with Cons.IH False e show ?thesis by simp
  qed
qed

lemma findFirstTag_strings:
  "\<forall>e \<in> set es. \<exists>s. snd e = JStr s \<Longrightarrow> findFirstTag es = Inr None"
  by (induction es) auto

lemma findFirstTag_chars:
  "findFirstTag (zip ks (map (\<lambda>c. JStr [c]) s)) = Inr None"
proof (rule findFirstTag_strings, rule ballI)
  fix e assume "e \<in> set (zip ks (map (\<lambda>c. JStr [c]) s))"
  then have "snd e \<in> set (map (\<lambda>c. JStr [c]) s)"
    using set_zip_rightD [of "fst e" "snd e" ks "map (\<lambda>c. JStr [c]) s"] by simp
  then show "\<exists>s. snd e = JStr s" by auto
qed

lemma resolveTasks_by_shape: "resolveTasks j = resolveByShape j"
proof (cases j)
  case JNull
  then show ?thesis by (simp add: resolveTasks_def resolveByShape_def)
next
  case (JBool b)
  then show ?thesis by (simp add: resolveTasks_def resolveByShape_def hasTagTasks_def)
next
  case (JNum n)
  then show ?thesis by (simp add: resolveTasks_def resolveByShape_def hasTagTasks_def)
next
  case (JStr s)
  then show ?thesis
    by (simp add: resolveTasks_def resolveByShape_def hasTagTasks_def findFirstTag_chars)
next
  case (JArr xs)
  then show ?thesis by (simp add: resolveTasks_def resolveByShape_def)
next
  case (JObj kvs)
  show ?thesis
  proof (cases "truthy (map_of kvs ''tasks'')")
    case True
    with JObj show ?thesis by (simp add: resolveTasks_def resolveByShape_def)
  next
    case noTasks: False
    show ?thesis
    proof (cases "truthy (tagField kvs ''master'')")
      case True
      then obtain m where "map_of kvs ''master'' = Some m" "m \<noteq> JNull"
        using truthy_tagField_lookup by blast
      then have "tagTasks (JObj kvs) ''master'' = Inr (tagField kvs ''master'')"
        by (rule tagTasks_obj)
      with JObj noTasks True show ?thesis
        by (simp add: resolveTasks_def resolveByShape_def hasTagTasks_obj)
    next
      case noMaster: False
      show ?thesis
      proof (cases "scanTags kvs")
        case (Inl e)
        with JObj noTasks noMaster show ?thesis
          by (simp add: resolveTasks_def resolveByShape_def hasTagTasks_obj findFirstTag_scanTags)
      next
        case (Inr found)
        show ?thesis
        proof (cases found)
          case None
          with Inr JObj noTasks noMaster show ?thesis
            by (simp add: resolveTasks_def resolveByShape_def hasTagTasks_obj
                  findFirstTag_scanTags)
        next
          case (Some k)
          with Inr obtain m where "map_of kvs k = Some m" "m \<noteq> JNull"
            using scanTags_found by blast
          then have "tagTasks (JObj kvs) k = Inr (tagField kvs k)"
            by (rule tagTasks_obj)
          with Some Inr JObj noTasks noMaster show ?thesis
            by (cases "k = []")
               (simp_all add: resolveTasks_def resolveByShape_def hasTagTasks_obj
                  findFirstTag_scanTags)
        qed
      qed
    qed
  qed
qed

text \<open>
  A first key with a \<open>tasks\<close> list that is the empty string is found by \<open>find\<close> and
  then dropped by \<open>if (firstTag)\<close>: the list stays empty under \<open>master\<close>, and the
  tasks under that key are never looked at.
\<close>

lemma empty_tag_is_dropped:
  "resolveTasks (JObj [([], JObj [(''tasks'', JArr [JObj [(''id'', JNum 1)]])])])
     = Inr (Some (JArr []), ''master'')
   \<and> resolveTasks (JObj [([], JObj [(''tasks'', JArr [JNull])])])
     = Inr (Some (JArr []), ''master'')
   \<and> resolveTasks (JObj [(''v2'', JObj [(''tasks'', JArr [JObj [(''id'', JNum 1)]])])])
     = Inr (Some (JArr [JObj [(''id'', JNum 1)]]), ''v2'')"
  by (simp add: resolveTasks_def hasTagTasks_def tagTasks_def)

subsection \<open>The transformation of the tasks\<close>

lemma js_error_unique: "(e :: js_error) = TypeError"
  by (cases e)

lemma transformTask_null: "transformTask c u JNull = Inl TypeError"
  by (simp add: transformTask_def)

lemma transformTask_ok: "t \<noteq> JNull \<Longrightarrow> \<exists>out. transformTask c u t = Inr out"
  by (cases t) (simp_all add: transformTask_def)

lemma transformAll_fails: "JNull \<in> set xs \<Longrightarrow> transformAll clock i xs = Inl TypeError"
proof (induction xs arbitrary: i)
  case Nil
  then show ?case by simp
next
  case (Cons x xs)
  show ?case
  proof (cases "x = JNull")
    case True
    then show ?thesis by (simp add: transformTask_null)
  next
    case False
    with Cons.prems have "JNull \<in> set xs" by simp
    then have "transformAll clock (Suc i) xs = Inl TypeError" by (rule Cons.IH)
    then show ?thesis by (simp add: js_error_unique split: sum.splits)
  qed
qed

lemma transformAll_succeeds:
  "JNull \<notin> set xs \<Longrightarrow> \<exists>outs. transformAll clock i xs = Inr outs"
proof (induction xs arbitrary: i)
  case Nil
  then show ?case by simp
next
  case (Cons x xs)
  then have "x \<noteq> JNull" and "JNull \<notin> set xs" by auto
  then obtain out outs where "transformTask (clock (2 * i)) (clock (2 * i + 1)) x = Inr out"
    and "transformAll clock (Suc i) xs = Inr outs"
    using transformTask_ok Cons.IH by blast
  then show ?case by simp
qed

lemma transformAll_length:
  "transformAll clock i xs = Inr outs \<Longrightarrow> length outs = length xs"
  by (induction xs arbitrary: i outs) (auto split: sum.splits)

lemma transformAll_nth:
  "transformAll clock i xs = Inr outs \<Longrightarrow> k < length xs \<Longrightarrow>
   transformTask (clock (2 * (i + k))) (clock (2 * (i + k) + 1)) (xs ! k) = Inr (outs ! k)"
proof (induction xs arbitrary: i outs k)
  case Nil
  then show ?case by simp
next
  case (Cons x xs)
  from Cons.prems(1) obtain out rest where
    out: "transformTask (clock (2 * i)) (clock (2 * i + 1)) x = Inr out" and
    rest: "transformAll clock (Suc i) xs = Inr rest" and
    outs: "outs = out # rest"
    by (auto split: sum.splits)
  show ?case
  proof (cases k)
    case 0
    with out outs show ?thesis by simp
  next
    case (Suc k')
    with Cons.prems(2) have "k' < length xs" by simp
    with rest have
      "transformTask (clock (2 * (Suc i + k'))) (clock (2 * (Suc i + k') + 1)) (xs ! k')
         = Inr (rest ! k')"
      by (rule Cons.IH)
    with Suc outs show ?thesis by simp
  qed
qed

lemma mapTasks_Inr:
  "mapTasks clock v = Inr outs \<Longrightarrow> \<exists>xs. v = Some (JArr xs) \<and> transformAll clock 0 xs = Inr outs"
  by (cases "(clock, v)" rule: mapTasks.cases) simp_all

lemma normalize_Inr:
  assumes "normalize_tasks clock j = Inr r"
  shows "\<exists>xs. resolveByShape j = Inr (Some (JArr xs), currentTag r)
           \<and> transformAll clock 0 xs = Inr (tasks r)
           \<and> totalTasks r = length (tasks r)
           \<and> tasksByStatus r =
                [(''pending'', countStatus (tasks r) ''pending''),
                 (''in-progress'', countStatus (tasks r) ''in-progress''),
                 (''done'', countStatus (tasks r) ''done''),
                 (''review'', countStatus (tasks r) ''review''),
                 (''deferred'', countStatus (tasks r) ''deferred''),
                 (''cancelled'', countStatus (tasks r) ''cancelled'')]
           \<and> timestamp r = clock (2 * length (tasks r))"
proof -
  from assms obtain v tag outs where
    res: "resolveTasks j = Inr (v, tag)" and
    mp: "mapTasks clock v = Inr outs" and
    r: "r = \<lparr> tasks = outs, currentTag = tag, totalTasks = length outs,
              tasksByStatus =
                [(''pending'', countStatus outs ''pending''),
                 (''in-progress'', countStatus outs ''in-progress''),
                 (''done'', countStatus outs ''done''),
                 (''review'', countStatus outs ''review''),
                 (''deferred'', countStatus outs ''deferred''),
                 (''cancelled'', countStatus outs ''cancelled'')], timestamp = clock (2 * length outs) \<rparr>"
    by (auto simp: normalize_tasks_def split: sum.splits prod.splits)
  from mp obtain xs where "v = Some (JArr xs)" "transformAll clock 0 xs = Inr outs"
    using mapTasks_Inr by blast
  with res r show ?thesis
    by (simp add: resolveTasks_by_shape)
qed

lemma normalize_succeeds:
  assumes "resolveByShape j = Inr (Some (JArr xs), tag)" and "JNull \<notin> set xs"
  shows "\<exists>r. normalize_tasks clock j = Inr r"
proof -
  from assms(2) obtain outs where "transformAll clock 0 xs = Inr outs"
    using transformAll_succeeds by blast
  with assms(1) show ?thesis
    by (simp add: normalize_tasks_def resolveTasks_by_shape)
qed

lemma normalize_Inl: "normalize_tasks clock j = Inl e \<Longrightarrow> e = TypeError"
  by (cases e) simp

subsection \<open>Claims about the normaliser\<close>

text \<open>
  C2 (as amended). The handler resolves the shape of the input in a fixed order, the first
  match winning: a list is the task list; else a truthy \<open>tasks\<close> field is taken as the
  task list, whether or not it is a list; else a truthy \<open>master.tasks\<close>; else the
  \<open>tasks\<close> of the first key in enumeration order whose value has a \<open>tasks\<close> list, the
  tag being that key, when that key is not the empty string; else the empty list. The
  tag is \<open>master\<close> in all but the fourth case. A \<open>null\<close> input, or a \<open>null\<close> value
  met by the scan of the keys, raises an error. A normalised result has the resolved tag,
  and its task list is a list of the resolved length.
\<close>

theorem shape_resolution_order:
  "resolveTasks j = resolveByShape j
   \<and> (normalize_tasks clock j = Inr r \<longrightarrow>
        (\<exists>xs. resolveByShape j = Inr (Some (JArr xs), currentTag r)
              \<and> length (tasks r) = length xs))"
proof (intro conjI impI)
  show "resolveTasks j = resolveByShape j"
    by (rule resolveTasks_by_shape)
next
  assume "normalize_tasks clock j = Inr r"
  then obtain xs where "resolveByShape j = Inr (Some (JArr xs), currentTag r)"
    and "transformAll clock 0 xs = Inr (tasks r)"
    using normalize_Inr by blast
  then show "\<exists>xs. resolveByShape j = Inr (Some (JArr xs), currentTag r)
              \<and> length (tasks r) = length xs"
    using transformAll_length by blast
qed

theorem shape_resolution_order_witness:
  "normalize_tasks (fixedClock ''2024-05-01T10:00:00.000Z'')
     (JObj [(''featureX'', JObj [(''tasks'', JArr [JObj [(''id'', JNum 2)]])]),
            (''master'', JObj [(''tasks'', JArr [])])])
   = Inr \<lparr> tasks = [], currentTag = ''master'', totalTasks = 0,
           tasksByStatus = [(''pending'', 0), (''in-progress'', 0), (''done'', 0),
                            (''review'', 0), (''deferred'', 0), (''cancelled'', 0)],
           timestamp = ''2024-05-01T10:00:00.000Z'' \<rparr>
   \<and> resolveByShape
        (JObj [(''featureX'', JObj [(''tasks'', JArr [JObj [(''id'', JNum 2)]])]),
               (''master'', JObj [(''tasks'', JArr [])])])
      = Inr (Some (JArr []), ''master'')"
  using shape_resolution_order
    [of "JObj [(''featureX'', JObj [(''tasks'', JArr [JObj [(''id'', JNum 2)]])]),
               (''master'', JObj [(''tasks'', JArr [])])]"
        "fixedClock ''2024-05-01T10:00:00.000Z''"
        "\<lparr> tasks = [], currentTag = ''master'', totalTasks = 0,
           tasksByStatus = [(''pending'', 0), (''in-progress'', 0), (''done'', 0),
                            (''review'', 0), (''deferred'', 0), (''cancelled'', 0)],
           timestamp = ''2024-05-01T10:00:00.000Z'' \<rparr>"]
  by (simp add: normalize_tasks_def resolveByShape_def tagField_def countStatus_def
        fixedClock_def)

theorem shape_resolution_counterexample:
  "resolveClaimed (JObj [(''tasks'', JStr ''x''), (''master'', JObj [(''tasks'', JArr [])])])
     = (JArr [], ''master'')
   \<and> resolveTasks (JObj [(''tasks'', JStr ''x''), (''master'', JObj [(''tasks'', JArr [])])])
     = Inr (Some (JStr ''x''), ''master'')
   \<and> normalize_tasks (fixedClock ''2024-05-01T10:00:00.000Z'')
       (JObj [(''tasks'', JStr ''x''), (''master'', JObj [(''tasks'', JArr [])])])
     = Inl TypeError"
  by (simp add: resolveClaimed_def tagField_def resolveTasks_def normalize_tasks_def)

text \<open>
  C3 (as amended). The handler always answers and never throws: a missing tasks file gives
  the answer with an empty task list; a file that cannot be read or parsed gives the
  answer \<open>Failed to parse tasks file\<close> with status 500; a parsed input gives the
  normalised result exactly when the shape resolution raises no error and yields a list
  without a \<open>null\<close> element, and the status 500 answer otherwise. An input for which the
  resolution ends with the empty list under \<open>master\<close> (among them every boolean, number,
  string and empty object) gives the empty but valid result.
\<close>

theorem handler_always_answers:
  "tasksHandler clock NoTasksFile = NoTasksFound
   \<and> tasksHandler clock Unparseable = FailedToParse
   \<and> ((\<exists>xs tag. resolveByShape j = Inr (Some (JArr xs), tag) \<and> JNull \<notin> set xs) \<longrightarrow>
        (\<exists>r. tasksHandler clock (Parsed j) = TasksLoaded r))
   \<and> (\<not> (\<exists>xs tag. resolveByShape j = Inr (Some (JArr xs), tag) \<and> JNull \<notin> set xs) \<longrightarrow>
        tasksHandler clock (Parsed j) = FailedToParse)
   \<and> (resolveByShape j = Inr (Some (JArr []), ''master'') \<longrightarrow>
        (\<exists>r. tasksHandler clock (Parsed j) = TasksLoaded r \<and> tasks r = []
              \<and> currentTag r = ''master''))"
proof (intro conjI impI)
  show "tasksHandler clock NoTasksFile = NoTasksFound"
    by (simp add: tasksHandler_def)
  show "tasksHandler clock Unparseable = FailedToParse"
    by (simp add: tasksHandler_def)
next
  assume "\<exists>xs tag. resolveByShape j = Inr (Some (JArr xs), tag) \<and> JNull \<notin> set xs"
  then obtain r where "normalize_tasks clock j = Inr r"
    using normalize_succeeds by blast
  then show "\<exists>r. tasksHandler clock (Parsed j) = TasksLoaded r"
    by (simp add: tasksHandler_def)
next
  assume no: "\<not> (\<exists>xs tag. resolveByShape j = Inr (Some (JArr xs), tag) \<and> JNull \<notin> set xs)"
  have "\<exists>e. normalize_tasks clock j = Inl e"
  proof (cases "normalize_tasks clock j")
    case (Inl e)
    then show ?thesis by blast
  next
    case (Inr r)
    then obtain xs where res: "resolveByShape j = Inr (Some (JArr xs), currentTag r)"
      and tr: "transformAll clock 0 xs = Inr (tasks r)"
      using normalize_Inr by blast
    from tr have "JNull \<notin> set xs"
      using transformAll_fails by fastforce
    with res no show ?thesis by blast
  qed
  then show "tasksHandler clock (Parsed j) = FailedToParse"
    by (auto simp: tasksHandler_def)
next
  assume "resolveByShape j = Inr (Some (JArr []), ''master'')"
  then show "\<exists>r. tasksHandler clock (Parsed j) = TasksLoaded r \<and> tasks r = []
              \<and> currentTag r = ''master''"
    by (simp add: tasksHandler_def normalize_tasks_def resolveTasks_by_shape)
qed

theorem handler_always_answers_witness:
  "resolveByShape (JObj [(''version'', JNum 2)]) = Inr (Some (JArr []), ''master'')
   \<and> (\<exists>xs tag. resolveByShape (JObj [(''version'', JNum 2)]) = Inr (Some (JArr xs), tag)
                \<and> JNull \<notin> set xs)
   \<and> (\<exists>r. tasksHandler (fixedClock ''2024-05-01T10:00:00.000Z'')
             (Parsed (JObj [(''version'', JNum 2)])) = TasksLoaded r
           \<and> tasks r = [] \<and> currentTag r = ''master'')
   \<and> \<not> (\<exists>xs tag. resolveByShape JNull = Inr (Some (JArr xs), tag) \<and> JNull \<notin> set xs)
   \<and> tasksHandler (fixedClock ''2024-05-01T10:00:00.000Z'') (Parsed JNull) = FailedToParse"
proof -
  have a: "resolveByShape (JObj [(''version'', JNum 2)]) = Inr (Some (JArr []), ''master'')"
    by (simp add: resolveByShape_def tagField_def)
  have b: "\<not> (\<exists>xs tag. resolveByShape JNull = Inr (Some (JArr xs), tag) \<and> JNull \<notin> set xs)"
    by (simp add: resolveByShape_def)
  from a have c: "\<exists>xs tag. resolveByShape (JObj [(''version'', JNum 2)])
                     = Inr (Some (JArr xs), tag) \<and> JNull \<notin> set xs"
    by simp
  show ?thesis
    using a b c
      handler_always_answers
        [of "fixedClock ''2024-05-01T10:00:00.000Z''" "JObj [(''version'', JNum 2)]"]
      handler_always_answers [of "fixedClock ''2024-05-01T10:00:00.000Z''" JNull]
    by blast
qed

theorem handler_fails_counterexample:
  "tasksHandler (fixedClock ''2024-05-01T10:00:00.000Z'') (Parsed JNull) = FailedToParse
   \<and> tasksHandler (fixedClock ''2024-05-01T10:00:00.000Z'')
       (Parsed (JObj [(''tasks'', JObj [(''1'', JObj [(''title'', JStr ''A'')])])]))
     = FailedToParse
   \<and> tasksHandler (fixedClock ''2024-05-01T10:00:00.000Z'')
       (Parsed (JArr [JObj [(''id'', JNum 1)], JNull]))
     = FailedToParse"
  by (simp add: tasksHandler_def normalize_tasks_def resolveTasks_def transformTask_def)

subsection \<open>Field defaults\<close>

lemma orDefault_kept: "keptOrDefault a d (orDefault a d)"
  by (cases a) (auto simp: keptOrDefault_def orDefault_def)

lemma transformTask_Inr:
  assumes "transformTask c u t = Inr out"
  shows "out = \<lparr> id_field = fieldOf t ''id'',
                title = orDefault (fieldOf t ''title'') (JStr ''Untitled Task''),
                description = orDefault (fieldOf t ''description'') (JStr ''''),
                status = orDefault (fieldOf t ''status'') (JStr ''pending''),
                priority = orDefault (fieldOf t ''priority'') (JStr ''medium''),
                dependencies = orDefault (fieldOf t ''dependencies'') (JArr []),
                createdAt =
                  orDefault (fieldOf t ''createdAt'')
                    (orDefault (fieldOf t ''created'') (JStr c)),
                updatedAt =
                  orDefault (fieldOf t ''updatedAt'')
                    (orDefault (fieldOf t ''updated'') (JStr u)),
                details = orDefault (fieldOf t ''details'') (JStr ''''),
                testStrategy =
                  orDefault (fieldOf t ''testStrategy'')
                    (orDefault (fieldOf t ''test_strategy'') (JStr '''')),
                subtasks = orDefault (fieldOf t ''subtasks'') (JArr []) \<rparr>"
proof (cases "getProp (Some t) ''id''")
  case (Inl e)
  with assms show ?thesis by (simp add: transformTask_def)
next
  case (Inr i)
  then have "fieldOf t ''id'' = i" by (simp add: fieldOf_def)
  with assms Inr show ?thesis by (simp add: transformTask_def)
qed


text \<open>
  C4 (as amended). Every output task has all documented fields. A field whose value in the
  source record is truthy is passed through unchanged. A field that the source record
  omits, or holds as \<open>null\<close>, \<open>false\<close>, \<open>0\<close> or the empty string, gets its default:
  \<open>Untitled Task\<close> for the title, the empty string for description and details,
  \<open>pending\<close> for the status, \<open>medium\<close> for the priority, the empty list for
  dependencies and subtasks. \<open>testStrategy\<close> falls back to a truthy \<open>test_strategy\<close>
  of the source record before it defaults to the empty string. The \<open>id\<close> is passed
  through as it is.
\<close>

theorem field_defaults:
  assumes "normalize_tasks clock j = Inr r"
    and "resolveByShape j = Inr (Some (JArr xs), tag)"
    and "k < length xs"
  shows "length (tasks r) = length xs
    \<and> id_field (tasks r ! k) = fieldOf (xs ! k) ''id''
    \<and> keptOrDefault (fieldOf (xs ! k) ''title'') (JStr ''Untitled Task'') (title (tasks r ! k))
    \<and> keptOrDefault (fieldOf (xs ! k) ''description'') (JStr []) (description (tasks r ! k))
    \<and> keptOrDefault (fieldOf (xs ! k) ''details'') (JStr []) (details (tasks r ! k))
    \<and> keptOrDefault (fieldOf (xs ! k) ''status'') (JStr ''pending'') (status (tasks r ! k))
    \<and> keptOrDefault (fieldOf (xs ! k) ''priority'') (JStr ''medium'') (priority (tasks r ! k))
    \<and> keptOrDefault (fieldOf (xs ! k) ''dependencies'') (JArr []) (dependencies (tasks r ! k))
    \<and> keptOrDefault (fieldOf (xs ! k) ''subtasks'') (JArr []) (subtasks (tasks r ! k))
    \<and> (if truthy (fieldOf (xs ! k) ''testStrategy'')
        then fieldOf (xs ! k) ''testStrategy'' = Some (testStrategy (tasks r ! k))
        else keptOrDefault (fieldOf (xs ! k) ''test_strategy'') (JStr [])
               (testStrategy (tasks r ! k)))"
proof -
  from assms(1) obtain ys where "resolveByShape j = Inr (Some (JArr ys), currentTag r)"
    and "transformAll clock 0 ys = Inr (tasks r)"
    using normalize_Inr by blast
  with assms(2) have tr: "transformAll clock 0 xs = Inr (tasks r)"
    by simp
  then have len: "length (tasks r) = length xs"
    by (rule transformAll_length)
  from tr assms(3) have
    "transformTask (clock (2 * (0 + k))) (clock (2 * (0 + k) + 1)) (xs ! k) = Inr (tasks r ! k)"
    by (rule transformAll_nth)
  then obtain c u where out: "transformTask c u (xs ! k) = Inr (tasks r ! k)"
    by blast
  define t where "t = xs ! k"
  define out where "out = tasks r ! k"
  note eq = transformTask_Inr [OF out [folded t_def out_def]]
  have f1: "id_field out = fieldOf t ''id''"
    by (subst eq) simp
  have f2: "keptOrDefault (fieldOf t ''title'') (JStr ''Untitled Task'') (title out)"
    by (subst eq) (simp add: orDefault_kept)
  have f3: "keptOrDefault (fieldOf t ''description'') (JStr []) (description out)"
    by (subst eq) (simp add: orDefault_kept)
  have f4: "keptOrDefault (fieldOf t ''details'') (JStr []) (details out)"
    by (subst eq) (simp add: orDefault_kept)
  have f5: "keptOrDefault (fieldOf t ''status'') (JStr ''pending'') (status out)"
    by (subst eq) (simp add: orDefault_kept)
  have f6: "keptOrDefault (fieldOf t ''priority'') (JStr ''medium'') (priority out)"
    by (subst eq) (simp add: orDefault_kept)
  have f7: "keptOrDefault (fieldOf t ''dependencies'') (JArr []) (dependencies out)"
    by (subst eq) (simp add: orDefault_kept)
  have f8: "keptOrDefault (fieldOf t ''subtasks'') (JArr []) (subtasks out)"
    by (subst eq) (simp add: orDefault_kept)
  have ts: "testStrategy out =
              orDefault (fieldOf t ''testStrategy'')
                (orDefault (fieldOf t ''test_strategy'') (JStr []))"
    by (subst eq) simp
  have f9: "(if truthy (fieldOf t ''testStrategy'')
        then fieldOf t ''testStrategy'' = Some (testStrategy out)
        else keptOrDefault (fieldOf t ''test_strategy'') (JStr []) (testStrategy out))"
  proof (cases "truthy (fieldOf t ''testStrategy'')")
    case True
    then show ?thesis
      using orDefault_kept [of "fieldOf t ''testStrategy''"
              "orDefault (fieldOf t ''test_strategy'') (JStr [])"]
      by (simp add: ts keptOrDefault_def)
  next
    case False
    then have "testStrategy out = orDefault (fieldOf t ''test_strategy'') (JStr [])"
      using orDefault_kept [of "fieldOf t ''testStrategy''"
              "orDefault (fieldOf t ''test_strategy'') (JStr [])"]
      by (simp add: ts keptOrDefault_def)
    with False show ?thesis
      by (simp add: orDefault_kept)
  qed
  from len f1 f2 f3 f4 f5 f6 f7 f8 f9 show ?thesis
    unfolding t_def out_def by blast
qed

theorem field_defaults_witness:
  "normalize_tasks (fixedClock ''2024-05-01T10:00:00.000Z'')
     (JObj [(''tasks'', JArr [JObj [(''id'', JNum 1), (''title'', JStr ''A'')]])])
   = Inr \<lparr> tasks =
             [\<lparr> id_field = Some (JNum 1), title = JStr ''A'', description = JStr [],
                status = JStr ''pending'', priority = JStr ''medium'',
                dependencies = JArr [], createdAt = JStr ''2024-05-01T10:00:00.000Z'',
                updatedAt = JStr ''2024-05-01T10:00:00.000Z'', details = JStr [],
                testStrategy = JStr [], subtasks = JArr [] \<rparr>],
           currentTag = ''master'', totalTasks = 1,
           tasksByStatus = [(''pending'', 1), (''in-progress'', 0), (''done'', 0),
                            (''review'', 0), (''deferred'', 0), (''cancelled'', 0)],
           timestamp = ''2024-05-01T10:00:00.000Z'' \<rparr>
   \<and> resolveByShape (JObj [(''tasks'', JArr [JObj [(''id'', JNum 1), (''title'', JStr ''A'')]])])
     = Inr (Some (JArr [JObj [(''id'', JNum 1), (''title'', JStr ''A'')]]), ''master'')
   \<and> (0 :: nat) < length [JObj [(''id'', JNum 1), (''title'', JStr ''A'')]]
   \<and> keptOrDefault (fieldOf (JObj [(''id'', JNum 1), (''title'', JStr ''A'')]) ''status'')
        (JStr ''pending'') (JStr ''pending'')
   \<and> keptOrDefault (fieldOf (JObj [(''id'', JNum 1), (''title'', JStr ''A'')]) ''title'')
        (JStr ''Untitled Task'') (JStr ''A'')"
  using field_defaults
    [of "fixedClock ''2024-05-01T10:00:00.000Z''"
        "JObj [(''tasks'', JArr [JObj [(''id'', JNum 1), (''title'', JStr ''A'')]])]"
        "\<lparr> tasks =
             [\<lparr> id_field = Some (JNum 1), title = JStr ''A'', description = JStr [],
                status = JStr ''pending'', priority = JStr ''medium'',
                dependencies = JArr [], createdAt = JStr ''2024-05-01T10:00:00.000Z'',
                updatedAt = JStr ''2024-05-01T10:00:00.000Z'', details = JStr [],
                testStrategy = JStr [], subtasks = JArr [] \<rparr>],
           currentTag = ''master'', totalTasks = 1,
           tasksByStatus = [(''pending'', 1), (''in-progress'', 0), (''done'', 0),
                            (''review'', 0), (''deferred'', 0), (''cancelled'', 0)],
           timestamp = ''2024-05-01T10:00:00.000Z'' \<rparr>"
        "[JObj [(''id'', JNum 1), (''title'', JStr ''A'')]]" "''master''" 0]
  by (simp add: normalize_tasks_def resolveTasks_def resolveByShape_def transformTask_def
        fieldOf_def orDefault_def countStatus_def fixedClock_def keptOrDefault_def)

theorem field_passthrough_counterexample:
  "tasksHandler (fixedClock ''2024-05-01T10:00:00.000Z'')
     (Parsed (JArr [JObj [(''id'', JNum 1), (''title'', JStr []),
                          (''test_strategy'', JStr ''unit tests'')]]))
   = TasksLoaded
       \<lparr> tasks =
           [\<lparr> id_field = Some (JNum 1), title = JStr ''Untitled Task'',
              description = JStr [], status = JStr ''pending'', priority = JStr ''medium'',
              dependencies = JArr [], createdAt = JStr ''2024-05-01T10:00:00.000Z'',
              updatedAt = JStr ''2024-05-01T10:00:00.000Z'', details = JStr [],
              testStrategy = JStr ''unit tests'', subtasks = JArr [] \<rparr>],
         currentTag = ''master'', totalTasks = 1,
         tasksByStatus = [(''pending'', 1), (''in-progress'', 0), (''done'', 0),
                          (''review'', 0), (''deferred'', 0), (''cancelled'', 0)],
         timestamp = ''2024-05-01T10:00:00.000Z'' \<rparr>"
  by (simp add: tasksHandler_def normalize_tasks_def resolveTasks_def transformTask_def
        fieldOf_def orDefault_def countStatus_def fixedClock_def)

subsection \<open>Status buckets\<close>

lemma countStatus_count_list: "countStatus ts s = count_list (map status ts) (JStr s)"
  by (induction ts) (simp_all add: countStatus_def)

text \<open>
  C6 (as amended). The status-bucketed counts of the normalised result have exactly the
  six keys \<open>pending\<close>, \<open>in-progress\<close>, \<open>done\<close>, \<open>review\<close>, \<open>deferred\<close> and
  \<open>cancelled\<close>; under each key stands the number of output tasks whose status is that
  string. A task whose status lies outside the six values is in the task list and in
  \<open>totalTasks\<close>, but is counted under no key.
\<close>

theorem status_buckets:
  assumes "normalize_tasks clock j = Inr r"
  shows "map fst (tasksByStatus r) = statusValues
    \<and> (\<forall>s \<in> set statusValues.
          map_of (tasksByStatus r) s = Some (count_list (map status (tasks r)) (JStr s)))
    \<and> (\<forall>s. s \<notin> set statusValues \<longrightarrow> map_of (tasksByStatus r) s = None)
    \<and> totalTasks r = length (tasks r)"
proof -
  from assms have
    b: "tasksByStatus r =
          [(''pending'', countStatus (tasks r) ''pending''),
           (''in-progress'', countStatus (tasks r) ''in-progress''),
           (''done'', countStatus (tasks r) ''done''),
           (''review'', countStatus (tasks r) ''review''),
           (''deferred'', countStatus (tasks r) ''deferred''),
           (''cancelled'', countStatus (tasks r) ''cancelled'')]"
    and t: "totalTasks r = length (tasks r)"
    using normalize_Inr by blast+
  have k: "map fst (tasksByStatus r) = statusValues"
    by (simp add: b statusValues_def)
  have c: "\<forall>s \<in> set statusValues.
          map_of (tasksByStatus r) s = Some (count_list (map status (tasks r)) (JStr s))"
    by (simp add: b statusValues_def countStatus_count_list)
  have n: "\<forall>s. s \<notin> set statusValues \<longrightarrow> map_of (tasksByStatus r) s = None"
    by (simp add: b statusValues_def)
  from k c n t show ?thesis by blast
qed

theorem status_buckets_witness:
  "normalize_tasks (fixedClock ''2024-05-01T10:00:00.000Z'')
     (JArr [JObj [(''status'', JStr ''done'')], JObj [(''status'', JStr ''blocked'')],
            JObj [(''id'', JNum 3)]])
   = Inr \<lparr> tasks =
             [\<lparr> id_field = None, title = JStr ''Untitled Task'', description = JStr [],
                status = JStr ''done'', priority = JStr ''medium'',
                dependencies = JArr [], createdAt = JStr ''2024-05-01T10:00:00.000Z'',
                updatedAt = JStr ''2024-05-01T10:00:00.000Z'', details = JStr [],
                testStrategy = JStr [], subtasks = JArr [] \<rparr>,
              \<lparr> id_field = None, title = JStr ''Untitled Task'', description = JStr [],
                status = JStr ''blocked'', priority = JStr ''medium'',
                dependencies = JArr [], createdAt = JStr ''2024-05-01T10:00:00.000Z'',
                updatedAt = JStr ''2024-05-01T10:00:00.000Z'', details = JStr [],
                testStrategy = JStr [], subtasks = JArr [] \<rparr>,
              \<lparr> id_field = Some (JNum 3), title = JStr ''Untitled Task'',
                description = JStr [],
                status = JStr ''pending'', priority = JStr ''medium'',
                dependencies = JArr [], createdAt = JStr ''2024-05-01T10:00:00.000Z'',
                updatedAt = JStr ''2024-05-01T10:00:00.000Z'', details = JStr [],
                testStrategy = JStr [], subtasks = JArr [] \<rparr>],
           currentTag = ''master'', totalTasks = 3,
           tasksByStatus = [(''pending'', 1), (''in-progress'', 0), (''done'', 1),
                            (''review'', 0), (''deferred'', 0), (''cancelled'', 0)],
           timestamp = ''2024-05-01T10:00:00.000Z'' \<rparr>
   \<and> ''done'' \<in> set statusValues
   \<and> ''blocked'' \<notin> set statusValues"
  using status_buckets
    [of "fixedClock ''2024-05-01T10:00:00.000Z''"
        "JArr [JObj [(''status'', JStr ''done'')], JObj [(''status'', JStr ''blocked'')],
            JObj [(''id'', JNum 3)]]"
        "\<lparr> tasks =
             [\<lparr> id_field = None, title = JStr ''Untitled Task'', description = JStr [],
                status = JStr ''done'', priority = JStr ''medium'',
                dependencies = JArr [], createdAt = JStr ''2024-05-01T10:00:00.000Z'',
                updatedAt = JStr ''2024-05-01T10:00:00.000Z'', details = JStr [],
                testStrategy = JStr [], subtasks = JArr [] \<rparr>,
              \<lparr> id_field = None, title = JStr ''Untitled Task'', description = JStr [],
                status = JStr ''blocked'', priority = JStr ''medium'',
                dependencies = JArr [], createdAt = JStr ''2024-05-01T10:00:00.000Z'',
                updatedAt = JStr ''2024-05-01T10:00:00.000Z'', details = JStr [],
                testStrategy = JStr [], subtasks = JArr [] \<rparr>,
              \<lparr> id_field = Some (JNum 3), title = JStr ''Untitled Task'',
                description = JStr [],
                status = JStr ''pending'', priority = JStr ''medium'',
                dependencies = JArr [], createdAt = JStr ''2024-05-01T10:00:00.000Z'',
                updatedAt = JStr ''2024-05-01T10:00:00.000Z'', details = JStr [],
                testStrategy = JStr [], subtasks = JArr [] \<rparr>],
           currentTag = ''master'', totalTasks = 3,
           tasksByStatus = [(''pending'', 1), (''in-progress'', 0), (''done'', 1),
                            (''review'', 0), (''deferred'', 0), (''cancelled'', 0)],
           timestamp = ''2024-05-01T10:00:00.000Z'' \<rparr>"]
  by (simp add: normalize_tasks_def resolveTasks_def transformTask_def
        fieldOf_def orDefault_def countStatus_def fixedClock_def statusValues_def)

theorem status_buckets_counterexample:
  "tasksHandler (fixedClock ''2024-05-01T10:00:00.000Z'')
     (Parsed (JArr [JObj [(''id'', JNum 1), (''status'', JStr ''blocked'')]]))
   = TasksLoaded
       \<lparr> tasks =
           [\<lparr> id_field = Some (JNum 1), title = JStr ''Untitled Task'',
              description = JStr [], status = JStr ''blocked'', priority = JStr ''medium'',
              dependencies = JArr [], createdAt = JStr ''2024-05-01T10:00:00.000Z'',
              updatedAt = JStr ''2024-05-01T10:00:00.000Z'', details = JStr [],
              testStrategy = JStr [], subtasks = JArr [] \<rparr>],
         currentTag = ''master'', totalTasks = 1,
         tasksByStatus = [(''pending'', 0), (''in-progress'', 0), (''done'', 0),
                          (''review'', 0), (''deferred'', 0), (''cancelled'', 0)],
         timestamp = ''2024-05-01T10:00:00.000Z'' \<rparr>
   \<and> map_of [(''pending'', 0 :: nat), (''in-progress'', 0), (''done'', 0),
              (''review'', 0), (''deferred'', 0), (''cancelled'', 0)] ''blocked'' = None"
  by (simp add: tasksHandler_def normalize_tasks_def resolveTasks_def transformTask_def
        fieldOf_def orDefault_def countStatus_def fixedClock_def)

subsection \<open>Dependence on the clock\<close>













subsection \<open>Detection of the MCP server\<close>

















lemma startsWith_iff: "startsWith s p \<longleftrightarrow> (\<exists>post. s = p @ post)"
  by (induction s p rule: startsWith.induct) auto

text \<open>\<open>includes_str\<close> is the substring test.\<close>

lemma includes_str_iff: "includes_str s pat \<longleftrightarrow> (\<exists>pre post. s = pre @ pat @ post)"
proof (induction s)
  case Nil
  show ?case by auto
next
  case (Cons c cs)
  show ?case
  proof
    assume "includes_str (c # cs) pat"
    then consider "startsWith (c # cs) pat" | "includes_str cs pat" by auto
    then show "\<exists>pre post. c # cs = pre @ pat @ post"
    proof cases
      case 1
      then obtain post where "c # cs = pat @ post" using startsWith_iff by blast
      then have "c # cs = [] @ pat @ post" by simp
      then show ?thesis by blast
    next
      case 2
      with Cons.IH obtain pre post where "cs = pre @ pat @ post" by blast
      then have "c # cs = (c # pre) @ pat @ post" by simp
      then show ?thesis by blast
    qed
  next
    assume "\<exists>pre post. c # cs = pre @ pat @ post"
    then obtain pre post where eq: "c # cs = pre @ pat @ post" by blast
    show "includes_str (c # cs) pat"
    proof (cases pre)
      case Nil
      with eq have "startsWith (c # cs) pat" using startsWith_iff by auto
      then show ?thesis by simp
    next
      case (Cons d pre')
      with eq have "cs = pre' @ pat @ post" by simp
      with Cons.IH have "includes_str cs pat" by blast
      then show ?thesis by simp
    qed
  qed
qed

subsection \<open>Completion percentage\<close>

lemmas percentage_defs =
  computePercentage_def toDouble_def ilog2_def bits.simps roundHalfEven_def mathRound_def

lemma countSubtask_plain:
  assumes "plainSubtask s" and "st_subtasks acc = Counts f"
  shows "\<exists>f'. countSubtask acc s =
           Inr (acc\<lparr>st_subtotalTasks := st_subtotalTasks acc + 1, st_subtasks := Counts f'\<rparr>)"
proof -
  from assms(1) obtain kvs where s: "s = JObj kvs" by (cases s) simp_all
  show ?thesis
  proof (cases "map_of kvs ''status''")
    case None
    with s assms(2) show ?thesis by (auto simp: countSubtask_def)
  next
    case (Some v)
    with assms(1) s obtain str where "v = JStr str" by (cases v) simp_all
    with Some s assms(2) show ?thesis by (auto simp: countSubtask_def)
  qed
qed

lemma countSubtasks_plain:
  assumes "list_all plainSubtask subs" and "st_subtasks acc = Counts f"
  shows "\<exists>f' n. countSubtasks acc subs =
           Inr (acc\<lparr>st_subtotalTasks := n, st_subtasks := Counts f'\<rparr>)"
  using assms
proof (induction subs arbitrary: acc f)
  case Nil
  have "acc = acc\<lparr>st_subtotalTasks := st_subtotalTasks acc, st_subtasks := Counts f\<rparr>"
    using Nil.prems(2) by simp
  then show ?case by (metis countSubtasks.simps(1))
next
  case (Cons s subs)
  then have ps: "plainSubtask s" and rest: "list_all plainSubtask subs" by simp_all
  from countSubtask_plain [OF ps Cons.prems(2)] obtain f1 where
    one: "countSubtask acc s =
           Inr (acc\<lparr>st_subtotalTasks := st_subtotalTasks acc + 1, st_subtasks := Counts f1\<rparr>)"
    by blast
  let ?acc1 = "acc\<lparr>st_subtotalTasks := st_subtotalTasks acc + 1, st_subtasks := Counts f1\<rparr>"
  have "st_subtasks ?acc1 = Counts f1" by simp
  from Cons.IH [OF rest this] obtain f' n where
    "countSubtasks ?acc1 subs = Inr (?acc1\<lparr>st_subtotalTasks := n, st_subtasks := Counts f'\<rparr>)"
    by blast
  with one show ?case by auto
qed

lemma countTask_plain:
  assumes "plainTask t" and "st_subtasks acc = Counts f"
  shows "\<exists>acc' f'. countTask acc t = Inr acc'
           \<and> st_total acc' = st_total acc + 1
           \<and> st_done acc' = st_done acc + (if fieldOf t ''status'' = Some (JStr ''done'') then 1 else 0)
           \<and> st_subtasks acc' = Counts f'"
proof -
  from assms(1) obtain kvs where t: "t = JObj kvs" by (cases t) simp_all
  let ?acc1 = "acc\<lparr>st_total := st_total acc + 1\<rparr>"
  have b: "\<exists>acc2. bump ?acc1 (keyName (map_of kvs ''status'')) = Inr acc2
             \<and> \<not> (case map_of kvs ''status'' of None \<Rightarrow> False | Some v \<Rightarrow> keyThrows v)
             \<and> st_total acc2 = st_total acc + 1
             \<and> st_done acc2 = st_done acc
                 + (if map_of kvs ''status'' = Some (JStr ''done'') then 1 else 0)
             \<and> st_subtasks acc2 = Counts f"
  proof (cases "map_of kvs ''status''")
    case None
    with assms(2) show ?thesis by (simp add: bump_def)
  next
    case (Some v)
    with assms(1) t obtain s where s: "v = JStr s" "s \<noteq> ''total''" "s \<noteq> ''subtasks''"
      by (cases v) simp_all
    with Some assms(2) show ?thesis by (simp add: bump_def)
  qed
  then obtain acc2 where acc2: "bump ?acc1 (keyName (map_of kvs ''status'')) = Inr acc2"
    "\<not> (case map_of kvs ''status'' of None \<Rightarrow> False | Some v \<Rightarrow> keyThrows v)"
    "st_total acc2 = st_total acc + 1"
    "st_done acc2 = st_done acc + (if map_of kvs ''status'' = Some (JStr ''done'') then 1 else 0)"
    "st_subtasks acc2 = Counts f"
    by blast
  have st: "fieldOf t ''status'' = map_of kvs ''status''"
    by (simp add: t fieldOf_def)
  show ?thesis
  proof (cases "map_of kvs ''subtasks''")
    case None
    with acc2 t st show ?thesis
      by (simp add: countTask_def)
  next
    case (Some v)
    show ?thesis
    proof (cases "truthy (Some v)")
      case False
      with Some acc2 t st show ?thesis
        by (simp add: countTask_def)
    next
      case True
      with assms(1) t Some obtain subs where v: "v = JArr subs" "list_all plainSubtask subs"
        by (cases v) simp_all
      from countSubtasks_plain [OF v(2) acc2(5)] obtain f' n where
        "countSubtasks acc2 subs = Inr (acc2\<lparr>st_subtotalTasks := n, st_subtasks := Counts f'\<rparr>)"
        by blast
      with Some v acc2 t st show ?thesis
        by (simp add: countTask_def)
    qed
  qed
qed

lemma reduceStats_plain:
  assumes "list_all plainTask ts" and "st_subtasks acc = Counts f"
  shows "\<exists>acc'. reduceStats acc ts = Inr acc'
           \<and> st_total acc' = st_total acc + length ts
           \<and> st_done acc' = st_done acc + doneCount ts"
  using assms
proof (induction ts arbitrary: acc f)
  case Nil
  show ?case by (simp add: doneCount_def)
next
  case (Cons t ts)
  then have pt: "plainTask t" and rest: "list_all plainTask ts" by simp_all
  from countTask_plain [OF pt Cons.prems(2)] obtain acc1 f1 where
    one: "countTask acc t = Inr acc1" "st_total acc1 = st_total acc + 1"
      "st_done acc1 = st_done acc + (if fieldOf t ''status'' = Some (JStr ''done'') then 1 else 0)"
      "st_subtasks acc1 = Counts f1"
    by blast
  from Cons.IH [OF rest one(4)] obtain acc' where
    "reduceStats acc1 ts = Inr acc'" "st_total acc' = st_total acc1 + length ts"
    "st_done acc' = st_done acc1 + doneCount ts"
    by blast
  with one show ?case
    by (simp add: doneCount_def)
qed

text \<open>
  For task records as the tool writes them the reported task count is the number of tasks
  and the percentage is \<open>Math.round((done / total) * 100)\<close> of the two counts of the list.
\<close>

lemma percentage_of_plain_tasks:
  assumes "list_all plainTask ts"
  shows "\<exists>md. taskMetadataOf (Some (JObj [(''tasks'', JArr ts)])) (Some mtime) = Metadata md
           \<and> taskCount md = length ts
           \<and> completed md = doneCount ts
           \<and> completionPercentage md = computePercentage (doneCount ts) (length ts)"
proof -
  have "st_subtasks initialStats = Counts False"
    by (simp add: initialStats_def)
  from reduceStats_plain [OF assms this] obtain st where
    "reduceStats initialStats ts = Inr st" "st_total st = length ts" "st_done st = doneCount ts"
    by (auto simp: initialStats_def)
  then show ?thesis
    by (simp add: taskMetadataOf_def collectTasks_def computeStats_def metadataOf_def)
qed

lemma percentage_zero_total: "computePercentage d 0 = 0"
  by (simp add: computePercentage_def)

text \<open>
  C5. The completion percentage of the metadata is computed from the accumulator of
  \<open>tasks.reduce\<close>, whose counter \<open>total\<close> shares its name space with the status keys:
  for the two tasks with the statuses \<open>done\<close> and \<open>total\<close> the counter ends at 3, the
  reported task count is 3 and the percentage is 33, whereas one task of two done is 50
  per cent. For the empty task list the percentage is 0.
\<close>

theorem percentage_counts_status_total:
  "taskMetadataOf
     (Some (JObj [(''tasks'',
                   JArr [JObj [(''id'', JNum 1), (''status'', JStr ''done'')],
                         JObj [(''id'', JNum 2), (''status'', JStr ''total'')]])]))
     (Some ''2024-05-01T10:00:00.000Z'')
   = Metadata \<lparr> taskCount = 3, subtaskCount = 0, completed = 1, pending = 0, inProgress = 0,
                review = 0, completionPercentage = 33,
                lastModified = ''2024-05-01T10:00:00.000Z'' \<rparr>
   \<and> computePercentage 1 2 = 50
   \<and> taskMetadataOf (Some (JObj [(''tasks'', JArr [])])) (Some ''2024-05-01T10:00:00.000Z'')
   = Metadata \<lparr> taskCount = 0, subtaskCount = 0, completed = 0, pending = 0, inProgress = 0,
                review = 0, completionPercentage = 0,
                lastModified = ''2024-05-01T10:00:00.000Z'' \<rparr>"
  by (simp add: taskMetadataOf_def collectTasks_def computeStats_def countTask_def bump_def
        initialStats_def metadataOf_def percentage_defs)

subsection \<open>Template substitution\<close>

lemma escapePlaceholder_plain: "backslash \<notin> set s \<Longrightarrow> escapePlaceholder s = s"
  by (induction s rule: escapePlaceholder.induct) auto

text \<open>
  For a key of characters that stand for themselves in a character class, the expression
  built from the placeholder is the class of the key's characters, and each character of
  the text that is in the key is replaced.
\<close>

lemma applyCustomizations_plain:
  assumes "list_all classChar key"
  shows "applyCustomizations content [(key, val)] = Some (replaceClass key val [] content)"
proof -
  from assms have "backslash \<notin> set key"
    by (auto simp: list_all_iff classChar_def)
  then have "backslash \<notin> set (''['' @ key @ '']'')"
    by (simp add: backslash_def)
  then have "escapePlaceholder (''['' @ key @ '']'') = ''['' @ key @ '']''"
    by (rule escapePlaceholder_plain)
  moreover have "compileClass (''['' @ key @ '']'') = Some key"
    using assms by (simp add: compileClass_def)
  ultimately show ?thesis by simp
qed

text \<open>
  C8. On the example of the specification the substitution of the handler is not the
  literal substitution of every \<open>[Name]\<close> and \<open>[Project]\<close>: the expression built from a
  placeholder is not escaped, so it is the class of the key's characters, and the letters
  of the text that occur in a key are replaced while the brackets stay. The literal
  substitution gives \<open>Hello Ann, welcome to Acme! - Ann\<close>.
\<close>

theorem template_substitution_example:
  "applyCustomizations ''Hello [Name], welcome to [Project]! - [Name]''
     [(''Name'', ''Ann''), (''Project'', ''Acme'')]
   = Some ''HAnnllAcme [AnnAnnAnnAnn], wAnnlAcmeAcmeAnnAnn AcmeAcme [AcmeAcmeAcmeAcmeAnnAcmeAcme]! - [AnnAnnAnnAnn]''
   \<and> substituteLiteral ''Project'' ''Acme''
       (substituteLiteral ''Name'' ''Ann'' ''Hello [Name], welcome to [Project]! - [Name]'')
     = ''Hello Ann, welcome to Acme! - Ann''"
  by (simp add: compileClass_def classChar_def specialChars_def backslash_def)

subsection \<open>The placeholder scan\<close>

lemma matchesFrom_names:
  "map snd (matchesFrom i s) = map slice1 (placeholderMatches s)"
  by (induction i s rule: matchesFrom.induct) (simp_all add: slice1_def)

lemma closedText_append:
  assumes "closedText p"
  shows "closedText (p @ q) \<longleftrightarrow> closedText q"
proof (cases "\<forall>x \<in> set (rev q). x \<noteq> CHR '']''")
  case True
  then have all: "\<And>x. x \<in> set (rev q) \<Longrightarrow> x \<noteq> CHR '']''"
    by blast
  then have "takeWhile (\<lambda>x. x \<noteq> CHR '']'') (rev q @ rev p)
               = rev q @ takeWhile (\<lambda>x. x \<noteq> CHR '']'') (rev p)"
    by (rule takeWhile_append2)
  then have l: "closedText (p @ q) \<longleftrightarrow>
                  CHR ''['' \<notin> set (rev q @ takeWhile (\<lambda>x. x \<noteq> CHR '']'') (rev p))"
    unfolding closedText_def rev_append by (simp only:)
  from True have "takeWhile (\<lambda>x. x \<noteq> CHR '']'') (rev q) = rev q"
    by (simp only: takeWhile_eq_all_conv)
  then have r: "closedText q \<longleftrightarrow> CHR ''['' \<notin> set (rev q)"
    unfolding closedText_def by (simp only:)
  from assms have "CHR ''['' \<notin> set (takeWhile (\<lambda>x. x \<noteq> CHR '']'') (rev p))"
    unfolding closedText_def .
  with l r show ?thesis
    by (simp only: set_append Un_iff) blast
next
  case False
  then obtain x where "x \<in> set (rev q)" "\<not> x \<noteq> CHR '']''" by blast
  then have "takeWhile (\<lambda>x. x \<noteq> CHR '']'') (rev q @ rev p)
               = takeWhile (\<lambda>x. x \<noteq> CHR '']'') (rev q)"
    by (rule takeWhile_append1)
  then show ?thesis
    unfolding closedText_def rev_append by (simp only:)
qed

lemma scanMatchAt_shift:
  assumes "closedText p"
  shows "scanMatchAt (p @ s) (length p + i) name \<longleftrightarrow> scanMatchAt s i name"
proof -
  have "take (length p + i) (p @ s) = p @ take i s"
    by simp
  then have "closedText (take (length p + i) (p @ s)) \<longleftrightarrow> closedText (take i s)"
    using closedText_append [OF assms] by simp
  then show ?thesis
    by (simp add: scanMatchAt_def)
qed

text \<open>A match starts with an opening bracket and has a closing bracket behind it.\<close>

lemma scanMatchAt_decompose:
  assumes "scanMatchAt s i name"
  shows "s = take i s @ ''['' @ name @ '']'' @ drop (i + length name + 2) s"
proof -
  from assms have tk: "take (length name + 2) (drop i s) = ''['' @ name @ '']''"
    by (simp add: scanMatchAt_def)
  have "drop i s = take (length name + 2) (drop i s) @ drop (length name + 2) (drop i s)"
    by (simp only: append_take_drop_id)
  also have "\<dots> = (''['' @ name @ '']'') @ drop (i + length name + 2) s"
    by (simp only: tk drop_drop add.commute add.left_commute)
  finally have d: "drop i s = (''['' @ name @ '']'') @ drop (i + length name + 2) s" .
  have "s = take i s @ drop i s"
    by (simp only: append_take_drop_id)
  with d show ?thesis
    by (simp only: append_assoc)
qed

lemma scanMatchAt_open:
  assumes "scanMatchAt s i name"
  shows "i < length s" and "s ! i = CHR ''[''"
proof -
  from assms have len: "i + length name + 2 \<le> length s"
    by (simp add: scanMatchAt_def)
  then show lt: "i < length s" by simp
  have "s = take i s @ CHR ''['' # (name @ '']'' @ drop (i + length name + 2) s)"
    using scanMatchAt_decompose [OF assms] by simp
  then have "s ! i = (take i s @ CHR ''['' # (name @ '']'' @ drop (i + length name + 2) s)) ! i"
    by (simp only:)
  also have "\<dots> = CHR ''[''"
    using lt by (simp add: nth_append)
  finally show "s ! i = CHR ''[''" .
qed

lemma scanMatchAt_has_close:
  assumes "scanMatchAt s i name"
  shows "CHR '']'' \<in> set (drop (Suc i) s)"
proof -
  from assms have lt: "i < length s"
    by (rule scanMatchAt_open)
  have "s = take i s @ CHR ''['' # (name @ '']'' @ drop (i + length name + 2) s)"
    using scanMatchAt_decompose [OF assms] by simp
  then have "drop (Suc i) s =
      drop (Suc i) (take i s @ CHR ''['' # (name @ '']'' @ drop (i + length name + 2) s))"
    by (simp only:)
  also have "\<dots> = name @ '']'' @ drop (i + length name + 2) s"
    using lt by simp
  finally show ?thesis by simp
qed

lemma closedText_single: "c \<noteq> CHR ''['' \<Longrightarrow> closedText [c]"
  by (simp add: closedText_def)

text \<open>Behind a character that is not an opening bracket the matches are those of the rest.\<close>

lemma scanMatchAt_skip:
  assumes "c \<noteq> CHR ''[''"
  shows "scanMatchAt (c # cs) i name \<longleftrightarrow> (\<exists>j. i = Suc j \<and> scanMatchAt cs j name)"
proof (cases i)
  case 0
  have "\<not> scanMatchAt (c # cs) 0 name"
    using scanMatchAt_open(2) [of "c # cs" 0 name] assms by auto
  with 0 show ?thesis by simp
next
  case (Suc j)
  have "scanMatchAt ([c] @ cs) (length [c] + j) name \<longleftrightarrow> scanMatchAt cs j name"
    using closedText_single [OF assms] by (rule scanMatchAt_shift)
  with Suc show ?thesis by simp
qed

lemma first_separator:
  "n @ d # a = r @ d # b \<Longrightarrow> d \<notin> set n \<Longrightarrow> d \<notin> set r \<Longrightarrow> n = r"
proof (induction n arbitrary: r)
  case Nil
  then show ?case by (cases r) auto
next
  case (Cons x n)
  then show ?case by (cases r) auto
qed

lemma scanMatchAt_failed_open:
  assumes "takeWhile (\<lambda>x. x \<noteq> CHR '']'') cs = [] \<or> dropWhile (\<lambda>x. x \<noteq> CHR '']'') cs = []"
  shows "scanMatchAt (CHR ''['' # cs) i name
           \<longleftrightarrow> (\<exists>j. i = Suc j \<and> scanMatchAt cs j name)"
proof (cases "dropWhile (\<lambda>x. x \<noteq> CHR '']'') cs = []")
  case True
  then have none: "CHR '']'' \<notin> set cs"
    by auto
  have "\<not> scanMatchAt (CHR ''['' # cs) i name"
  proof
    assume "scanMatchAt (CHR ''['' # cs) i name"
    then have "CHR '']'' \<in> set (drop (Suc i) (CHR ''['' # cs))"
      by (rule scanMatchAt_has_close)
    then have "CHR '']'' \<in> set (drop i cs)" by simp
    with none show False
      using set_drop_subset [of i cs] by blast
  qed
  moreover have "\<not> scanMatchAt cs j name" for j
  proof
    assume "scanMatchAt cs j name"
    then have "CHR '']'' \<in> set (drop (Suc j) cs)"
      by (rule scanMatchAt_has_close)
    with none show False
      using set_drop_subset [of "Suc j" cs] by blast
  qed
  ultimately show ?thesis by blast
next
  case False
  with assms have tw: "takeWhile (\<lambda>x. x \<noteq> CHR '']'') cs = []"
    by blast
  from False have "cs \<noteq> []" by auto
  then obtain d cs' where cs: "cs = d # cs'" by (cases cs) auto
  with tw have d: "d = CHR '']''"
    by (auto split: if_splits)
  show ?thesis
  proof (cases i)
    case 0
    have "\<not> scanMatchAt (CHR ''['' # cs) 0 name"
    proof
      assume a: "scanMatchAt (CHR ''['' # cs) 0 name"
      then have nm: "name \<noteq> []" "CHR '']'' \<notin> set name"
        by (simp_all add: scanMatchAt_def)
      from scanMatchAt_decompose [OF a]
      have "cs = name @ '']'' @ drop (length name + 2) (CHR ''['' # cs)"
        by simp
      with nm(1) have "hd cs = hd name" by (metis hd_append2)
      with cs d nm show False
        by (metis hd_in_set list.sel(1))
    qed
    with 0 show ?thesis by simp
  next
    case (Suc j)
    note sj = Suc
    show ?thesis
    proof (cases j)
      case 0
      have "\<not> scanMatchAt (CHR ''['' # cs) (Suc 0) name"
        using scanMatchAt_open(2) [of "CHR ''['' # cs" "Suc 0" name] cs d by auto
      moreover have "\<not> scanMatchAt cs 0 name"
        using scanMatchAt_open(2) [of cs 0 name] cs d by auto
      ultimately show ?thesis using sj 0 by simp
    next
      case (Suc j')
      have "scanMatchAt (''[]'' @ cs') (length ''[]'' + j') name \<longleftrightarrow> scanMatchAt cs' j' name"
        by (rule scanMatchAt_shift) (simp add: closedText_def)
      moreover
      have "scanMatchAt ('']'' @ cs') (length '']'' + j') name \<longleftrightarrow> scanMatchAt cs' j' name"
        by (rule scanMatchAt_shift) (simp add: closedText_def)
      ultimately show ?thesis
        using sj Suc cs d by simp
    qed
  qed
qed

lemma scanMatchAt_match:
  assumes "takeWhile (\<lambda>x. x \<noteq> CHR '']'') cs \<noteq> []"
    and "dropWhile (\<lambda>x. x \<noteq> CHR '']'') cs \<noteq> []"
  shows "scanMatchAt (CHR ''['' # cs) i name
           \<longleftrightarrow> (i = 0 \<and> name = takeWhile (\<lambda>x. x \<noteq> CHR '']'') cs)
               \<or> (\<exists>j. i = length (takeWhile (\<lambda>x. x \<noteq> CHR '']'') cs) + 2 + j
                       \<and> scanMatchAt (tl (dropWhile (\<lambda>x. x \<noteq> CHR '']'') cs)) j name)"
proof -
  define run where "run = takeWhile (\<lambda>x. x \<noteq> CHR '']'') cs"
  define rest where "rest = tl (dropWhile (\<lambda>x. x \<noteq> CHR '']'') cs)"
  from assms(2) have "hd (dropWhile (\<lambda>x. x \<noteq> CHR '']'') cs) = CHR '']''"
    using hd_dropWhile [of "\<lambda>x. x \<noteq> CHR '']''" cs] by simp
  with assms(2) have dw: "dropWhile (\<lambda>x. x \<noteq> CHR '']'') cs = CHR '']'' # rest"
    unfolding rest_def by (metis list.collapse)
  have "cs = takeWhile (\<lambda>x. x \<noteq> CHR '']'') cs @ dropWhile (\<lambda>x. x \<noteq> CHR '']'') cs"
    by simp
  with dw have cs: "cs = run @ CHR '']'' # rest"
    unfolding run_def by simp
  have run: "run \<noteq> []" "CHR '']'' \<notin> set run"
    using assms(1) set_takeWhileD [of _ "\<lambda>x. x \<noteq> CHR '']''" cs]
    unfolding run_def by auto
  let ?s = "CHR ''['' # run @ CHR '']'' # rest"
  have s: "CHR ''['' # cs = ?s" by (simp add: cs)
  have here: "scanMatchAt ?s 0 name \<longleftrightarrow> name = run"
  proof
    assume a: "scanMatchAt ?s 0 name"
    then have nm: "CHR '']'' \<notin> set name"
      by (simp add: scanMatchAt_def)
    from scanMatchAt_decompose [OF a]
    have "run @ CHR '']'' # rest = name @ CHR '']'' # drop (length name + 2) ?s"
      by simp
    then have "name @ CHR '']'' # drop (length name + 2) ?s = run @ CHR '']'' # rest"
      by (rule sym)
    then show "name = run"
      using nm run(2) by (rule first_separator)
  next
    assume "name = run"
    with run show "scanMatchAt ?s 0 name"
      by (simp add: scanMatchAt_def closedText_def)
  qed
  have inside: "\<not> scanMatchAt ?s i name" if "0 < i" "i < length run + 2"
  proof
    assume a: "scanMatchAt ?s i name"
    show False
    proof (cases "i = length run + 1")
      case True
      then have "?s ! i = CHR '']''"
        by (simp add: nth_append)
      with scanMatchAt_open(2) [OF a] show False by simp
    next
      case False
      with that obtain k where k: "i = Suc k" "k < length run"
        by (cases i) auto
      then have tk: "take i ?s = CHR ''['' # take k run"
        by simp
      have "\<forall>x \<in> set (rev (CHR ''['' # take k run)). x \<noteq> CHR '']''"
        using run(2) set_take_subset [of k run] by auto
      then have eq: "takeWhile (\<lambda>x. x \<noteq> CHR '']'') (rev (CHR ''['' # take k run))
                   = rev (CHR ''['' # take k run)"
        by (simp only: takeWhile_eq_all_conv)
      have mem: "CHR ''['' \<in> set (rev (CHR ''['' # take k run))"
        by simp
      have "\<not> closedText (take i ?s)"
        unfolding closedText_def tk eq using mem by blast
      with a show False
        by (simp add: scanMatchAt_def)
    qed
  qed
  have behind: "scanMatchAt ?s (length run + 2 + j) name \<longleftrightarrow> scanMatchAt rest j name" for j
  proof -
    have "scanMatchAt ((CHR ''['' # run @ '']'') @ rest)
            (length (CHR ''['' # run @ '']'') + j) name \<longleftrightarrow> scanMatchAt rest j name"
      by (rule scanMatchAt_shift) (simp add: closedText_def)
    then show ?thesis by simp
  qed
  have "scanMatchAt ?s i name
           \<longleftrightarrow> (i = 0 \<and> name = run) \<or> (\<exists>j. i = length run + 2 + j \<and> scanMatchAt rest j name)"
  proof (cases "i = 0")
    case True
    with here show ?thesis by simp
  next
    case nz: False
    show ?thesis
    proof (cases "i < length run + 2")
      case True
      with nz inside have "\<not> scanMatchAt ?s i name" by simp
      with True nz show ?thesis by auto
    next
      case False
      then obtain j where j: "i = length run + 2 + j"
        by (metis le_Suc_ex not_less)
      with behind nz show ?thesis by auto
    qed
  qed
  then show ?thesis
    unfolding s run_def rest_def .
qed

lemma matchesFrom_iff:
  "(k, name) \<in> set (matchesFrom off s) \<longleftrightarrow> (\<exists>i. k = off + i \<and> scanMatchAt s i name)"
proof (induction off s arbitrary: k rule: matchesFrom.induct)
  case (1 off)
  have "\<not> scanMatchAt [] i name" for i
    by (simp add: scanMatchAt_def)
  then show ?case by simp
next
  case (2 off c cs)
  show ?case
  proof (cases "c = CHR ''[''
         \<and> takeWhile (\<lambda>x. x \<noteq> CHR '']'') cs \<noteq> []
         \<and> dropWhile (\<lambda>x. x \<noteq> CHR '']'') cs \<noteq> []")
    case True
    then have c: "c = CHR ''[''" by simp
    from True have m: "matchesFrom off (c # cs) =
        (off, takeWhile (\<lambda>x. x \<noteq> CHR '']'') cs)
        # matchesFrom (off + length (takeWhile (\<lambda>x. x \<noteq> CHR '']'') cs) + 2)
            (tl (dropWhile (\<lambda>x. x \<noteq> CHR '']'') cs))"
      by simp
    note ih = "2.IH"(1) [OF True]
    note pm = scanMatchAt_match [of cs, unfolded c [symmetric]]
    from True have pa: "scanMatchAt (c # cs) i name
           \<longleftrightarrow> (i = 0 \<and> name = takeWhile (\<lambda>x. x \<noteq> CHR '']'') cs)
               \<or> (\<exists>j. i = length (takeWhile (\<lambda>x. x \<noteq> CHR '']'') cs) + 2 + j
                       \<and> scanMatchAt (tl (dropWhile (\<lambda>x. x \<noteq> CHR '']'') cs)) j name)" for i
      using scanMatchAt_match [of cs i name] c by simp
    show ?thesis
      unfolding m using ih pa by (auto simp: add.assoc)
  next
    case False
    then have m: "matchesFrom off (c # cs) = matchesFrom (Suc off) cs"
      by auto
    note ih = "2.IH"(2) [OF False]
    have pa: "scanMatchAt (c # cs) i name \<longleftrightarrow> (\<exists>j. i = Suc j \<and> scanMatchAt cs j name)" for i
    proof (cases "c = CHR ''[''")
      case True
      with False have "takeWhile (\<lambda>x. x \<noteq> CHR '']'') cs = []
                       \<or> dropWhile (\<lambda>x. x \<noteq> CHR '']'') cs = []"
        by blast
      then show ?thesis
        unfolding True by (rule scanMatchAt_failed_open)
    next
      case False
      then show ?thesis by (rule scanMatchAt_skip)
    qed
    show ?thesis
      unfolding m using ih pa by auto
  qed
qed

lemma matchesFrom_sorted: "sorted_wrt (<) (map fst (matchesFrom off s))"
proof (induction off s rule: matchesFrom.induct)
  case (1 off)
  show ?case by simp
next
  case (2 off c cs)
  show ?case
  proof (cases "c = CHR ''[''
         \<and> takeWhile (\<lambda>x. x \<noteq> CHR '']'') cs \<noteq> []
         \<and> dropWhile (\<lambda>x. x \<noteq> CHR '']'') cs \<noteq> []")
    case True
    let ?off' = "off + length (takeWhile (\<lambda>x. x \<noteq> CHR '']'') cs) + 2"
    let ?rest = "tl (dropWhile (\<lambda>x. x \<noteq> CHR '']'') cs)"
    from True have m: "matchesFrom off (c # cs) =
        (off, takeWhile (\<lambda>x. x \<noteq> CHR '']'') cs) # matchesFrom ?off' ?rest"
      by simp
    have "off < k" if "k \<in> set (map fst (matchesFrom ?off' ?rest))" for k
    proof -
      from that obtain name where "(k, name) \<in> set (matchesFrom ?off' ?rest)"
        by auto
      then obtain i where "k = ?off' + i"
        using matchesFrom_iff by blast
      then show ?thesis by simp
    qed
    with "2.IH"(1) [OF True] show ?thesis
      unfolding m by auto
  next
    case False
    then have "matchesFrom off (c # cs) = matchesFrom (Suc off) cs"
      by auto
    with "2.IH"(2) [OF False] show ?thesis by simp
  qed
qed

subsection \<open>The set of the names in the order of insertion\<close>

lemma set_addAll: "set (addAll seen xs) = set seen \<union> set xs"
  by (induction xs arbitrary: seen) auto

lemma distinct_addAll: "distinct seen \<Longrightarrow> distinct (addAll seen xs)"
  by (induction xs arbitrary: seen) auto

lemma addAll_order:
  assumes "\<forall>a b. a < b \<and> b < length seen \<longrightarrow> firstBefore passed (seen ! a) (seen ! b)"
    and "set seen = set passed"
  shows "\<forall>a b. a < b \<and> b < length (addAll seen xs) \<longrightarrow>
           firstBefore (passed @ xs) (addAll seen xs ! a) (addAll seen xs ! b)"
  using assms
proof (induction xs arbitrary: seen passed)
  case Nil
  then show ?case by simp
next
  case (Cons x xs)
  let ?seen = "if x \<in> set seen then seen else seen @ [x]"
  have grow: "firstBefore (passed @ [x]) u v" if "firstBefore passed u v" for u v
  proof -
    from that obtain k where k: "k < length passed" "passed ! k = u"
      "\<forall>k' < length passed. passed ! k' = v \<longrightarrow> k < k'"
      unfolding firstBefore_def by blast
    have "\<forall>k' < length (passed @ [x]). (passed @ [x]) ! k' = v \<longrightarrow> k < k'"
    proof (intro allI impI)
      fix k' assume "k' < length (passed @ [x])" "(passed @ [x]) ! k' = v"
      then show "k < k'"
        using k by (cases "k' < length passed") (auto simp: nth_append)
    qed
    with k(1,2) show ?thesis
      unfolding firstBefore_def by (auto simp: nth_append intro!: exI [of _ k])
  qed
  have ord: "\<forall>a b. a < b \<and> b < length ?seen \<longrightarrow>
               firstBefore (passed @ [x]) (?seen ! a) (?seen ! b)"
  proof (intro allI impI)
    fix a b assume ab: "a < b \<and> b < length ?seen"
    show "firstBefore (passed @ [x]) (?seen ! a) (?seen ! b)"
    proof (cases "b < length seen")
      case True
      with ab Cons.prems(1) have "firstBefore passed (seen ! a) (seen ! b)"
        by simp
      then have "firstBefore (passed @ [x]) (seen ! a) (seen ! b)"
        by (rule grow)
      with True ab show ?thesis
        by (simp add: nth_append)
    next
      case False
      with ab have new: "x \<notin> set seen" and b: "b = length seen"
        by (auto split: if_splits)
      from ab b have a: "a < length seen" by simp
      then have "seen ! a \<in> set passed"
        using Cons.prems(2) nth_mem by blast
      then obtain k where k: "k < length passed" "passed ! k = seen ! a"
        by (auto simp: in_set_conv_nth)
      have "\<forall>k' < length (passed @ [x]). (passed @ [x]) ! k' = x \<longrightarrow> k < k'"
      proof (intro allI impI)
        fix k' assume k': "k' < length (passed @ [x])" "(passed @ [x]) ! k' = x"
        show "k < k'"
        proof (cases "k' < length passed")
          case True
          with k'(2) have "x \<in> set passed"
            by (metis nth_append nth_mem)
          with new Cons.prems(2) show ?thesis by simp
        next
          case False
          with k(1) show ?thesis by simp
        qed
      qed
      with k have "firstBefore (passed @ [x]) (seen ! a) x"
        unfolding firstBefore_def by (auto simp: nth_append intro!: exI [of _ k])
      with new a b show ?thesis
        by (simp add: nth_append)
    qed
  qed
  have st: "set ?seen = set (passed @ [x])"
    using Cons.prems(2) by auto
  from Cons.IH [OF ord st] show ?case
    by simp
qed

text \<open>
  The scan in terms of its matches, for every text: the result is distinct, its names are
  the runs of the matches, and a run whose first match stands earlier in the text comes
  earlier in the result.
\<close>

lemma scan_collects_matches:
  "distinct (uniquePlaceholders content)
   \<and> set (uniquePlaceholders content) = {run. \<exists>i. scanMatchAt content i run}
   \<and> (\<forall>a b. a < b \<and> b < length (uniquePlaceholders content) \<longrightarrow>
        (\<exists>i. scanMatchAt content i (uniquePlaceholders content ! a) \<and>
             (\<forall>j. scanMatchAt content j (uniquePlaceholders content ! b) \<longrightarrow> i < j)))"
proof -
  define occ where "occ = matchesFrom 0 content"
  define ns where "ns = map snd occ"
  have ups: "uniquePlaceholders content = addAll [] ns"
    unfolding uniquePlaceholders_def ns_def occ_def by (simp only: matchesFrom_names)
  have occ_iff: "(k, name) \<in> set occ \<longleftrightarrow> scanMatchAt content k name" for k name
    unfolding occ_def using matchesFrom_iff [of k name 0 content] by simp
  have d: "distinct (uniquePlaceholders content)"
    unfolding ups by (rule distinct_addAll) simp
  have s: "set (uniquePlaceholders content) = {run. \<exists>i. scanMatchAt content i run}"
  proof -
    have "set (uniquePlaceholders content) = snd ` set occ"
      unfolding ups ns_def by (simp add: set_addAll)
    also have "\<dots> = {run. \<exists>i. scanMatchAt content i run}"
      using occ_iff by force
    finally show ?thesis .
  qed
  have "\<forall>a b. a < b \<and> b < length (addAll [] ns) \<longrightarrow>
           firstBefore ([] @ ns) (addAll [] ns ! a) (addAll [] ns ! b)"
    by (rule addAll_order) simp_all
  then have fb: "firstBefore ns (uniquePlaceholders content ! a) (uniquePlaceholders content ! b)"
    if "a < b" "b < length (uniquePlaceholders content)" for a b
    using that unfolding ups by simp
  have o: "\<forall>a b. a < b \<and> b < length (uniquePlaceholders content) \<longrightarrow>
        (\<exists>i. scanMatchAt content i (uniquePlaceholders content ! a) \<and>
             (\<forall>j. scanMatchAt content j (uniquePlaceholders content ! b) \<longrightarrow> i < j))"
  proof (intro allI impI)
    fix a b assume ab: "a < b \<and> b < length (uniquePlaceholders content)"
    let ?x = "uniquePlaceholders content ! a" and ?y = "uniquePlaceholders content ! b"
    from ab fb have "firstBefore ns ?x ?y" by simp
    then obtain k where k: "k < length ns" "ns ! k = ?x"
      "\<forall>k' < length ns. ns ! k' = ?y \<longrightarrow> k < k'"
      unfolding firstBefore_def by blast
    from k(1) have kl: "k < length occ" by (simp add: ns_def)
    with k(2) have "occ ! k = (fst (occ ! k), ?x)"
      by (simp add: ns_def prod_eq_iff)
    with kl have "(fst (occ ! k), ?x) \<in> set occ"
      by (metis nth_mem)
    then have here: "scanMatchAt content (fst (occ ! k)) ?x"
      by (simp add: occ_iff)
    have "fst (occ ! k) < j" if "scanMatchAt content j ?y" for j
    proof -
      from that have "(j, ?y) \<in> set occ" by (simp add: occ_iff)
      then obtain k' where k': "k' < length occ" "occ ! k' = (j, ?y)"
        by (auto simp: in_set_conv_nth)
      then have "ns ! k' = ?y" "k' < length ns"
        by (simp_all add: ns_def)
      with k(3) have "k < k'" by simp
      moreover have "sorted_wrt (<) (map fst occ)"
        unfolding occ_def by (rule matchesFrom_sorted)
      ultimately have "map fst occ ! k < map fst occ ! k'"
        using k'(1) sorted_wrt_nth_less [of "(<)" "map fst occ" k k'] by simp
      with kl k' show ?thesis by simp
    qed
    with here show "\<exists>i. scanMatchAt content i ?x \<and>
             (\<forall>j. scanMatchAt content j ?y \<longrightarrow> i < j)"
      by blast
  qed
  from d s o show ?thesis by blast
qed

subsection \<open>Placeholders of a text whose brackets do not nest\<close>

lemma openAfter_append: "openAfter opened (xs @ ys) = openAfter (openAfter opened xs) ys"
  by (induction xs arbitrary: opened) simp_all

lemma unnested_append:
  "unnested opened (xs @ ys) \<longleftrightarrow> unnested opened xs \<and> unnested (openAfter opened xs) ys"
  by (induction xs arbitrary: opened) simp_all

lemma closedText_snoc:
  "closedText (p @ [c]) \<longleftrightarrow> c = CHR '']'' \<or> (c \<noteq> CHR ''['' \<and> closedText p)"
  by (auto simp: closedText_def)

text \<open>A text is closed when no bracket is open behind it.\<close>

lemma closedText_openAfter: "closedText p \<longleftrightarrow> \<not> openAfter False p"
proof (induction p rule: rev_induct)
  case Nil
  show ?case by (simp add: closedText_def)
next
  case (snoc c p)
  then show ?case
    by (simp add: closedText_snoc openAfter_append)
qed

text \<open>Behind an open bracket, a run up to the closing bracket has no opening bracket.\<close>

lemma unnested_run:
  "unnested True (run @ rest) \<Longrightarrow> CHR '']'' \<notin> set run \<Longrightarrow> CHR ''['' \<notin> set run"
  by (induction run) (auto split: if_splits)

lemma bracketed_decompose:
  assumes "take (length name + 2) (drop i s) = ''['' @ name @ '']''"
  shows "s = take i s @ CHR ''['' # name @ CHR '']'' # drop (i + length name + 2) s"
proof -
  have "drop i s = take (length name + 2) (drop i s) @ drop (length name + 2) (drop i s)"
    by (simp only: append_take_drop_id)
  also have "\<dots> = (''['' @ name @ '']'') @ drop (i + length name + 2) s"
    by (simp only: assms drop_drop add.commute add.left_commute)
  finally have d: "drop i s = (''['' @ name @ '']'') @ drop (i + length name + 2) s" .
  have "s = take i s @ drop i s"
    by (simp only: append_take_drop_id)
  with d show ?thesis
    by simp
qed

text \<open>
  In a text whose brackets do not nest, the placeholders are the matches of the scan: no
  placeholder is swallowed by a match that began at an earlier opening bracket, and no
  run has an opening bracket in it.
\<close>

lemma unnested_placeholder_is_match:
  assumes "unnested False content"
  shows "placeholderAt content i name \<longleftrightarrow> scanMatchAt content i name"
proof
  assume p: "placeholderAt content i name"
  then have tk: "take (length name + 2) (drop i content) = ''['' @ name @ '']''"
    by (simp add: placeholderAt_def)
  have "unnested False
          (take i content @ CHR ''['' # name @ CHR '']'' # drop (i + length name + 2) content)"
    using assms bracketed_decompose [OF tk] by simp
  then have "unnested (openAfter False (take i content))
               (CHR ''['' # name @ CHR '']'' # drop (i + length name + 2) content)"
    by (simp only: unnested_append)
  then have "\<not> openAfter False (take i content)"
    by simp
  then have "closedText (take i content)"
    by (simp add: closedText_openAfter)
  with p show "scanMatchAt content i name"
    by (simp add: placeholderAt_def scanMatchAt_def)
next
  assume m: "scanMatchAt content i name"
  then have tk: "take (length name + 2) (drop i content) = ''['' @ name @ '']''"
    and nc: "CHR '']'' \<notin> set name"
    by (simp_all add: scanMatchAt_def)
  have "unnested False
          (take i content @ CHR ''['' # name @ CHR '']'' # drop (i + length name + 2) content)"
    using assms bracketed_decompose [OF tk] by simp
  then have "unnested (openAfter False (take i content))
               (CHR ''['' # name @ CHR '']'' # drop (i + length name + 2) content)"
    by (simp only: unnested_append)
  then have "unnested True (name @ CHR '']'' # drop (i + length name + 2) content)"
    by simp
  then have "CHR ''['' \<notin> set name"
    using nc by (rule unnested_run)
  with m show "placeholderAt content i name"
    by (simp add: placeholderAt_def scanMatchAt_def)
qed

text \<open>
  C9 (as amended). For a template text whose brackets do not nest (no opening bracket
  follows another opening bracket without a closing bracket between the two), the scan
  collects exactly the names of the placeholders \<open>[Name]\<close> of the text, a name being a
  non-empty text without brackets: each name once, and a name whose first placeholder
  stands earlier in the text comes earlier in the result. For the text
  \<open>Hello [Name], welcome to [Project]! - [Name]\<close> the result is \<open>Name\<close>, \<open>Project\<close>.
\<close>

theorem placeholder_scan:
  assumes "unnested False content"
  shows "distinct (uniquePlaceholders content)
   \<and> set (uniquePlaceholders content) = {name. \<exists>i. placeholderAt content i name}
   \<and> (\<forall>a b. a < b \<and> b < length (uniquePlaceholders content) \<longrightarrow>
        (\<exists>i. placeholderAt content i (uniquePlaceholders content ! a) \<and>
             (\<forall>j. placeholderAt content j (uniquePlaceholders content ! b) \<longrightarrow> i < j)))
   \<and> unnested False ''Hello [Name], welcome to [Project]! - [Name]''
   \<and> uniquePlaceholders ''Hello [Name], welcome to [Project]! - [Name]''
       = [''Name'', ''Project'']"
proof -
  note eq = unnested_placeholder_is_match [OF assms]
  have e: "unnested False ''Hello [Name], welcome to [Project]! - [Name]''"
    by simp
  have u: "uniquePlaceholders ''Hello [Name], welcome to [Project]! - [Name]''
       = [''Name'', ''Project'']"
    by (simp add: uniquePlaceholders_def slice1_def)
  from scan_collects_matches [of content] e u show ?thesis
    by (simp only: eq) blast
qed

theorem placeholder_scan_witness:
  "unnested False ''Dear [Customer], your [Order] has shipped. Bye, [Customer]''
   \<and> uniquePlaceholders ''Dear [Customer], your [Order] has shipped. Bye, [Customer]''
     = [''Customer'', ''Order'']
   \<and> (0 :: nat) < 1
   \<and> (1 :: nat) < length (uniquePlaceholders
                            ''Dear [Customer], your [Order] has shipped. Bye, [Customer]'')
   \<and> (\<exists>i. placeholderAt ''Dear [Customer], your [Order] has shipped. Bye, [Customer]'' i
             ''Customer''
           \<and> (\<forall>j. placeholderAt ''Dear [Customer], your [Order] has shipped. Bye, [Customer]'' j
                     ''Order'' \<longrightarrow> i < j))"
proof -
  have n: "unnested False ''Dear [Customer], your [Order] has shipped. Bye, [Customer]''"
    by simp
  have u: "uniquePlaceholders ''Dear [Customer], your [Order] has shipped. Bye, [Customer]''
             = [''Customer'', ''Order'']"
    by (simp add: uniquePlaceholders_def slice1_def)
  from placeholder_scan [OF n]
  have "\<forall>a b. a < b \<and> b < length (uniquePlaceholders
                  ''Dear [Customer], your [Order] has shipped. Bye, [Customer]'') \<longrightarrow>
        (\<exists>i. placeholderAt ''Dear [Customer], your [Order] has shipped. Bye, [Customer]'' i
               (uniquePlaceholders
                  ''Dear [Customer], your [Order] has shipped. Bye, [Customer]'' ! a) \<and>
             (\<forall>j. placeholderAt ''Dear [Customer], your [Order] has shipped. Bye, [Customer]'' j
                    (uniquePlaceholders
                       ''Dear [Customer], your [Order] has shipped. Bye, [Customer]'' ! b)
                   \<longrightarrow> i < j))"
    by blast
  then have "(0 :: nat) < 1 \<and> 1 < length (uniquePlaceholders
                  ''Dear [Customer], your [Order] has shipped. Bye, [Customer]'') \<longrightarrow>
        (\<exists>i. placeholderAt ''Dear [Customer], your [Order] has shipped. Bye, [Customer]'' i
               (uniquePlaceholders
                  ''Dear [Customer], your [Order] has shipped. Bye, [Customer]'' ! 0) \<and>
             (\<forall>j. placeholderAt ''Dear [Customer], your [Order] has shipped. Bye, [Customer]'' j
                    (uniquePlaceholders
                       ''Dear [Customer], your [Order] has shipped. Bye, [Customer]'' ! 1)
                   \<longrightarrow> i < j))"
    by blast
  with n u show ?thesis by simp
qed

theorem placeholder_scan_counterexample:
  "uniquePlaceholders ''[[a]]'' = [''[a'']
   \<and> placeholderAt ''[[a]]'' 1 ''a''
   \<and> ''a'' \<notin> set (uniquePlaceholders ''[[a]]'')
   \<and> uniquePlaceholders ''use [ for lists, then [Name]'' = ['' for lists, then [Name'']
   \<and> placeholderAt ''use [ for lists, then [Name]'' 22 ''Name''
   \<and> ''Name'' \<notin> set (uniquePlaceholders ''use [ for lists, then [Name]'')"
  by (simp add: uniquePlaceholders_def slice1_def placeholderAt_def)

end
